theory Spec2Isabelle
  imports Complex_Main "HOL-Library.Word"
begin

section \<open>Region database and minibatch sampling of the PASCAL VOC loader\<close>

text \<open>
  The development embeds \<^verbatim>\<open>neon/data/pascal_voc.py\<close>.  Python and numpy floats are
  modelled by the reals: rounding to float32/float64 is not modelled, every other step of
  the arithmetic is.  A Python exception is a value of type \<open>error\<close>, returned as \<open>Inl\<close>.
\<close>

datatype error =
  ZeroDivisionError | ValueError | IndexError | AssertionError | KeyError | IOError | TypeError

subsection \<open>Module constants\<close>

definition PASCAL_VOC_NUM_CLASSES :: nat where
  "PASCAL_VOC_NUM_CLASSES = 20 + 1"

definition FRCN_IMG_PER_BATCH :: int where
  "FRCN_IMG_PER_BATCH = 4"

definition FRCN_ROI_PER_IMAGE :: int where
  "FRCN_ROI_PER_IMAGE = 64"

definition FRCN_FG_FRAC :: real where
  "FRCN_FG_FRAC = 25 / 100"

definition FRCN_IOU_THRE :: real where
  "FRCN_IOU_THRE = 5 / 10"

definition FRCN_FG_IOU_THRE :: real where
  "FRCN_FG_IOU_THRE = 5 / 10"

definition FRCN_BG_IOU_THRE_LOW :: real where
  "FRCN_BG_IOU_THRE_LOW = 1 / 10"

definition FRCN_BG_IOU_THRE_HIGH :: real where
  "FRCN_BG_IOU_THRE_HIGH = 5 / 10"

definition FRCN_EPS :: real where
  "FRCN_EPS = 1 / 10 ^ 14"

subsection \<open>Sequencing of fallible steps\<close>

primrec foldM_err :: "('a \<Rightarrow> 's \<Rightarrow> error + 's) \<Rightarrow> 'a list \<Rightarrow> 's \<Rightarrow> error + 's" where
  "foldM_err f [] s = Inr s"
| "foldM_err f (x # xs) s = (case f x s of Inl e \<Rightarrow> Inl e | Inr s' \<Rightarrow> foldM_err f xs s')"

primrec mapM_err :: "('a \<Rightarrow> error + 'b) \<Rightarrow> 'a list \<Rightarrow> error + 'b list" where
  "mapM_err f [] = Inr []"
| "mapM_err f (x # xs) =
     (case f x of
        Inl e \<Rightarrow> Inl e
      | Inr y \<Rightarrow> (case mapM_err f xs of Inl e \<Rightarrow> Inl e | Inr ys \<Rightarrow> Inr (y # ys)))"

subsection \<open>Overlap of two box lists: \<^verbatim>\<open>calculate_bb_overlap\<close>\<close>

text \<open>A box is a row \<open>(x_min, y_min, x_max, y_max)\<close> of a float array of shape \<open>(N, 4)\<close>.\<close>

type_synonym 'a quad = "'a \<times> 'a \<times> 'a \<times> 'a"

type_synonym box = "real quad"

text \<open>The columns \<open>[:, 0]\<close> to \<open>[:, 3]\<close> of one row.\<close>

fun col0 :: "'a quad \<Rightarrow> 'a" where "col0 (a, b, c, d) = a"
fun col1 :: "'a quad \<Rightarrow> 'a" where "col1 (a, b, c, d) = b"
fun col2 :: "'a quad \<Rightarrow> 'a" where "col2 (a, b, c, d) = c"
fun col3 :: "'a quad \<Rightarrow> 'a" where "col3 (a, b, c, d) = d"

fun map_quad :: "('a \<Rightarrow> 'b) \<Rightarrow> 'a quad \<Rightarrow> 'b quad" where
  "map_quad f (a, b, c, d) = (f a, f b, f c, f d)"

fun zip_quad :: "('a \<Rightarrow> 'b \<Rightarrow> 'c) \<Rightarrow> 'a quad \<Rightarrow> 'b quad \<Rightarrow> 'c quad" where
  "zip_quad f (a, b, c, d) (a', b', c', d') = (f a a', f b b', f c c', f d d')"

definition gt_box_area :: "box \<Rightarrow> real" where
  "gt_box_area g = (col2 g - col0 g + 1) * (col3 g - col1 g + 1)"

definition inter_iw :: "box \<Rightarrow> box \<Rightarrow> real" where
  "inter_iw r g = min (col2 r) (col2 g) - max (col0 r) (col0 g) + 1"

definition inter_ih :: "box \<Rightarrow> box \<Rightarrow> real" where
  "inter_ih r g = min (col3 r) (col3 g) - max (col1 r) (col1 g) + 1"

definition union_ua :: "box \<Rightarrow> box \<Rightarrow> real" where
  "union_ua r g =
     (col2 r - col0 r + 1) * (col3 r - col1 r + 1) + gt_box_area g - inter_iw r g * inter_ih r g"

text \<open>Division of two Python floats raises on a zero divisor.\<close>

definition py_float_div :: "real \<Rightarrow> real \<Rightarrow> error + real" where
  "py_float_div a b = (if b = 0 then Inl ZeroDivisionError else Inr (a / b))"

text \<open>
  The body of the inner loop for one pair \<open>(r, g)\<close>: the value written to
  \<open>overlaps[r, g]\<close>, which stays at its initial 0 when either guard fails.
\<close>

definition overlap_cell :: "box \<Rightarrow> box \<Rightarrow> error + real" where
  "overlap_cell g r =
     (let iw = inter_iw r g in
      if iw > 0 then
        (let ih = inter_ih r g in
         if ih > 0 then
           (let ua = union_ua r g in py_float_div (iw * ih) ua)
         else Inr 0)
      else Inr 0)"

text \<open>
  The outer loop runs over the ground-truth boxes and the inner one over the proposals;
  the result has one row for each proposal and one column for each ground-truth box.
\<close>

definition calculate_bb_overlap :: "box list \<Rightarrow> box list \<Rightarrow> error + real list list" where
  "calculate_bb_overlap rp gt =
     (case mapM_err (\<lambda>g. mapM_err (overlap_cell g) rp) gt of
        Inl e \<Rightarrow> Inl e
      | Inr cols \<Rightarrow> Inr (map (\<lambda>r. map (\<lambda>col. col ! r) cols) [0..<length rp]))"


subsection \<open>numpy floats that may be non-finite\<close>

text \<open>
  Array division and \<^verbatim>\<open>np.sqrt\<close> do not raise: they store \<open>nan\<close> or \<open>inf\<close>.  The
  values written by the normalisation step are therefore of type \<open>npfloat\<close>.  The sign of
  a zero is not modelled; a zero divisor counts as \<open>+0\<close>.
\<close>

datatype npfloat = Fin real | PInf | NInf | NaN

definition np_sqrt :: "real \<Rightarrow> npfloat" where
  "np_sqrt x = (if x < 0 then NaN else Fin (sqrt x))"

fun np_sub :: "npfloat \<Rightarrow> real \<Rightarrow> npfloat" where
  "np_sub (Fin a) m = Fin (a - m)"
| "np_sub PInf m = PInf"
| "np_sub NInf m = NInf"
| "np_sub NaN m = NaN"

fun np_div :: "npfloat \<Rightarrow> npfloat \<Rightarrow> npfloat" where
  "np_div NaN y = NaN"
| "np_div x NaN = NaN"
| "np_div (Fin a) (Fin b) =
     (if b \<noteq> 0 then Fin (a / b) else if a = 0 then NaN else if a > 0 then PInf else NInf)"
| "np_div (Fin a) PInf = Fin 0"
| "np_div (Fin a) NInf = Fin 0"
| "np_div PInf (Fin b) = (if b \<ge> 0 then PInf else NInf)"
| "np_div NInf (Fin b) = (if b \<ge> 0 then NInf else PInf)"
| "np_div PInf PInf = NaN"
| "np_div PInf NInf = NaN"
| "np_div NInf PInf = NaN"
| "np_div NInf NInf = NaN"

subsection \<open>numpy helpers on lists\<close>

text \<open>\<^verbatim>\<open>np.where(cond)[0]\<close>: the positions where the condition holds, in order.\<close>

definition where_idx :: "('a \<Rightarrow> bool) \<Rightarrow> 'a list \<Rightarrow> nat list" where
  "where_idx P xs = filter (\<lambda>i. P (xs ! i)) [0..<length xs]"

text \<open>\<^verbatim>\<open>.max()\<close> and \<^verbatim>\<open>.argmax()\<close> of a non-empty row; the first maximum wins.\<close>

fun np_max :: "real list \<Rightarrow> real" where
  "np_max [] = 0"
| "np_max (x # xs) = fold max xs x"

primrec first_index :: "('a \<Rightarrow> bool) \<Rightarrow> 'a list \<Rightarrow> nat" where
  "first_index P [] = 0"
| "first_index P (x # xs) = (if P x then 0 else Suc (first_index P xs))"

definition np_argmax :: "real list \<Rightarrow> nat" where
  "np_argmax xs = first_index (\<lambda>x. x = np_max xs) xs"

text \<open>A row of a target array: the class in column 0, then \<open>(dx, dy, dw, dh)\<close>.\<close>

type_synonym 'a trow = "nat \<times> 'a quad"

definition zero_row :: "real trow" where
  "zero_row = (0, (0, 0, 0, 0))"

subsection \<open>Ground truth of one image: \<^verbatim>\<open>load_pascal_annotation\<close>\<close>

definition PASCAL_VOC_CLASSES :: "string list" where
  "PASCAL_VOC_CLASSES =
     [''__background__'',
      ''aeroplane'', ''bicycle'', ''bird'', ''boat'',
      ''bottle'', ''bus'', ''car'', ''cat'', ''chair'',
      ''cow'', ''diningtable'', ''dog'', ''horse'',
      ''motorbike'', ''person'', ''pottedplant'',
      ''sheep'', ''sofa'', ''train'', ''tvmonitor'']"

definition class_to_index :: "string \<Rightarrow> nat option" where
  "class_to_index = map_of (zip PASCAL_VOC_CLASSES [0..<PASCAL_VOC_NUM_CLASSES])"

text \<open>
  One \<^verbatim>\<open>object\<close> element of the annotation file, as the tags read: the four
  coordinates (1-based pixels) and the class name, lower-cased and stripped.
\<close>

record xml_object =
  obj_xmin :: int
  obj_ymin :: int
  obj_xmax :: int
  obj_ymax :: int
  obj_name :: string

text \<open>
  The dictionary returned for one image.  \<open>gt_bb\<close> is a \<^verbatim>\<open>uint16\<close> array, so its
  entries are 16-bit words.
\<close>

record roi_gt =
  gt_bb :: "16 word quad list"
  gt_classes :: "nat list"
  gt_overlaps :: "real list list"
  gt_img_id :: string
  gt_max_overlap_area :: "real list"
  gt_max_overlap_class :: "nat list"
  gt_bb_targets :: "real trow list"

definition load_object :: "xml_object \<Rightarrow> error + (16 word quad \<times> nat)" where
  "load_object obj =
     (let x1 = obj_xmin obj - 1; y1 = obj_ymin obj - 1;
          x2 = obj_xmax obj - 1; y2 = obj_ymax obj - 1 in
      case class_to_index (obj_name obj) of
        None \<Rightarrow> Inl KeyError
      | Some cls \<Rightarrow> Inr ((word_of_int x1, word_of_int y1, word_of_int x2, word_of_int y2), cls))"

definition load_pascal_annotation :: "string \<Rightarrow> xml_object list \<Rightarrow> error + roi_gt" where
  "load_pascal_annotation image_index objs =
     (case mapM_err load_object objs of
        Inl e \<Rightarrow> Inl e
      | Inr loaded \<Rightarrow>
          (let gt_max_class = map snd loaded;
               gt_bb_target = map (\<lambda>cls. (cls, (0, 0, 0, 0))) gt_max_class in
           Inr \<lparr> gt_bb = map fst loaded,
                 gt_classes = map snd loaded,
                 gt_overlaps =
                   map (\<lambda>cls. (replicate PASCAL_VOC_NUM_CLASSES 0)[cls := 1]) (map snd loaded),
                 gt_img_id = image_index,
                 gt_max_overlap_area = map (\<lambda>_. 1) loaded,
                 gt_max_overlap_class = gt_max_class,
                 gt_bb_targets = gt_bb_target \<rparr>))"

subsection \<open>Regression targets: \<^verbatim>\<open>_compute_bb_targets\<close>\<close>

text \<open>
  One row of the result.  The ground-truth row is \<^verbatim>\<open>uint16\<close>: its differences wrap
  before \<^verbatim>\<open>FRCN_EPS\<close> turns them into floats.  Division and logarithm are those of
  the reals.
\<close>

definition bb_target_row :: "16 word quad \<Rightarrow> box \<Rightarrow> nat \<Rightarrow> real trow" where
  "bb_target_row g r label =
     (let rp_widths = col2 r - col0 r + FRCN_EPS;
          rp_heights = col3 r - col1 r + FRCN_EPS;
          rp_ctr_x = col0 r + (1 / 2) * rp_widths;
          rp_ctr_y = col1 r + (1 / 2) * rp_heights;
          gt_widths = real (unat (col2 g - col0 g)) + FRCN_EPS;
          gt_heights = real (unat (col3 g - col1 g)) + FRCN_EPS;
          gt_ctr_x = real (unat (col0 g)) + (1 / 2) * gt_widths;
          gt_ctr_y = real (unat (col1 g)) + (1 / 2) * gt_heights;
          targets_dx = (gt_ctr_x - rp_ctr_x) / rp_widths;
          targets_dy = (gt_ctr_y - rp_ctr_y) / rp_heights;
          targets_dw = ln (gt_widths / rp_widths);
          targets_dh = ln (gt_heights / rp_heights)
      in (label, (targets_dx, targets_dy, targets_dw, targets_dh)))"

definition compute_bb_targets ::
  "16 word quad list \<Rightarrow> box list \<Rightarrow> nat list \<Rightarrow> real trow list" where
  "compute_bb_targets gt_bbs rp_bb labels =
     map (\<lambda>(g, r, l). bb_target_row g r l) (zip gt_bbs (zip rp_bb labels))"

subsection \<open>Proposals of one image: the loop body of \<^verbatim>\<open>load_pascal_roi_selectivesearch\<close>\<close>

record roi_ss =
  ss_bb :: "box list"
  ss_gt_classes :: "nat list"
  ss_gt_overlaps :: "real list list"
  ss_max_overlap_area :: "real list"
  ss_max_overlap_class :: "nat list"
  ss_bb_targets :: "real trow list"

text \<open>The pickled boxes are \<open>[y1, x1, y2, x2]\<close>, 1-based: \<^verbatim>\<open>ss_bb[i][:, (1, 0, 3, 2)] - 1\<close>.\<close>

fun ss_reorder :: "box \<Rightarrow> box" where
  "ss_reorder (y1, x1, y2, x2) = (x1 - 1, y1 - 1, x2 - 1, y2 - 1)"

definition as_float :: "16 word quad \<Rightarrow> box" where
  "as_float g = map_quad (\<lambda>w. real (unat w)) g"

definition selectivesearch_image :: "real \<Rightarrow> roi_gt \<Rightarrow> box list \<Rightarrow> error + roi_ss" where
  "selectivesearch_image overlap_thre gt raw =
     (let bb = map ss_reorder raw;
          num_boxes = length bb;
          overlaps0 = replicate num_boxes (replicate PASCAL_VOC_NUM_CLASSES (0::real));
          gtbb = gt_bb gt;
          gtcls = gt_classes gt in
      case calculate_bb_overlap bb (map as_float gtbb) of
        Inl e \<Rightarrow> Inl e
      | Inr gt_overlap \<Rightarrow>
          if gtbb = [] then Inl ValueError
          else
            (let max_overlap_area = map np_max gt_overlap;
                 max_overlap_arg = map np_argmax gt_overlap;
                 I = where_idx (\<lambda>a. a > 0) max_overlap_area in
             if list_ex (\<lambda>i. max_overlap_arg ! i \<ge> length gtcls
                            \<or> gtcls ! (max_overlap_arg ! i) \<ge> PASCAL_VOC_NUM_CLASSES) I
             then Inl IndexError
             else
               (let overlaps =
                      fold (\<lambda>i ov. ov[i := (ov ! i)[gtcls ! (max_overlap_arg ! i)
                                                      := max_overlap_area ! i]]) I overlaps0;
                    max_overlap_class = map np_argmax overlaps;
                    max_overlaps = map np_max overlaps;
                    ss_bb_targets0 = replicate num_boxes zero_row;
                    use_idx = where_idx (\<lambda>m. m \<ge> overlap_thre) max_overlaps;
                    bb_targets =
                      compute_bb_targets (map (\<lambda>i. gtbb ! (max_overlap_arg ! i)) use_idx)
                        (map (\<lambda>i. bb ! i) use_idx) (map (\<lambda>i. max_overlap_class ! i) use_idx);
                    ss_bb_targets1 =
                      fold (\<lambda>(i, t) ts. ts[i := t]) (zip use_idx bb_targets) ss_bb_targets0
                in Inr \<lparr> ss_bb = bb,
                         ss_gt_classes = replicate num_boxes 0,
                         ss_gt_overlaps = overlaps,
                         ss_max_overlap_area = max_overlap_area,
                         ss_max_overlap_class = max_overlap_class,
                         ss_bb_targets = ss_bb_targets1 \<rparr>)))"

subsection \<open>The dataset object and its external inputs\<close>

text \<open>
  The attributes of a \<^verbatim>\<open>PASCALVOC\<close> object that the methods below read.  The region
  database \<open>roi_db\<close> is the last attribute the constructor sets, so it extends the record.
\<close>

record 't roidb =
  bb :: "box list"
  db_gt_classes :: "nat list"
  db_gt_overlaps :: "real list list"
  max_overlap_area :: "real list"
  max_overlap_class :: "nat list"
  img_id :: string
  flipped :: bool
  img_file :: string
  bb_targets :: 't

record pascalvoc_attrs =
  add_flipped :: bool
  overlap_thre :: real
  output_type :: int
  rois_per_image :: int
  img_per_batch :: int
  fg_rois_per_image :: real
  bg_rois_per_image :: real
  rois_per_batch :: int
  rois_random_sample :: bool
  shuffle :: bool
  num_classes :: nat
  image_path :: string
  image_index :: "string list"
  num_images :: nat
  num_image_entries :: nat
  ndata :: int
  nbatches :: int

record pascalvoc = pascalvoc_attrs +
  roi_db :: "npfloat trow list roidb option list"

text \<open>
  What the code reads from outside: the files of the dataset and the sizes of the images.
  An absent file is \<open>None\<close>.
\<close>

record ss_data =
  boxes :: "box list list"
  images :: "string list"

record env =
  voc_root :: string
  index_file :: "string list option"
  annotation_files :: "string \<Rightarrow> xml_object list option"
  selective_search_file :: "ss_data option"
  cache_file :: "npfloat trow list roidb option list option"
  image_size :: "string \<Rightarrow> nat \<times> nat"

subsection \<open>\<^verbatim>\<open>load_pascal_roi_groundtruth\<close> and \<^verbatim>\<open>load_pascal_roi_selectivesearch\<close>\<close>

definition load_pascal_roi_groundtruth ::
  "'a pascalvoc_attrs_scheme \<Rightarrow> env \<Rightarrow> error + roi_gt list" where
  "load_pascal_roi_groundtruth self ev =
     mapM_err (\<lambda>img. case annotation_files ev img of
                        None \<Rightarrow> Inl IOError
                      | Some objs \<Rightarrow> load_pascal_annotation img objs) (image_index self)"

text \<open>
  The first assertion of the source, that \<open>roi_gt\<close> is set, cannot fail in the constructor:
  \<open>roi_gt\<close> is passed as an argument here.
\<close>

definition load_pascal_roi_selectivesearch ::
  "'a pascalvoc_attrs_scheme \<Rightarrow> env \<Rightarrow> roi_gt list \<Rightarrow> error + roi_ss list" where
  "load_pascal_roi_selectivesearch self ev roi_gts =
     (case selective_search_file ev of
        None \<Rightarrow> Inl AssertionError
      | Some ss \<Rightarrow>
          (let ss_bbs = boxes ss; ss_img_idx = images ss; ss_num_img = length ss_bbs in
           if ss_num_img \<noteq> num_images self then Inl AssertionError
           else mapM_err (\<lambda>i.
                  if i \<ge> length ss_img_idx \<or> i \<ge> length (image_index self)
                       \<or> i \<ge> length roi_gts then Inl IndexError
                  else if image_index self ! i \<noteq> ss_img_idx ! i then Inl AssertionError
                  else selectivesearch_image (overlap_thre self) (roi_gts ! i) (ss_bbs ! i))
                [0..<ss_num_img]))"

subsection \<open>Merging, flipping and normalising: \<^verbatim>\<open>combine_gt_ss_roi\<close>\<close>

text \<open>
  The per-class accumulators.  \<open>class_counts\<close> starts at \<^verbatim>\<open>FRCN_EPS\<close>, the sums at 0.
\<close>

text \<open>The array \<^verbatim>\<open>sums\<close> is the field \<open>sums_tab\<close>.\<close>

record stats =
  class_counts :: "real list"
  sums_tab :: "real quad list"
  squared_sums :: "real quad list"

definition vadd :: "real quad \<Rightarrow> real quad \<Rightarrow> real quad" where
  "vadd = zip_quad (+)"

definition vsum :: "real quad list \<Rightarrow> real quad" where
  "vsum vs = foldl vadd (0, 0, 0, 0) vs"

definition vsquare :: "real quad \<Rightarrow> real quad" where
  "vsquare = map_quad (\<lambda>x. x ^ 2)"

text \<open>The body of the loop over \<open>cls\<close> that follows each new target array.\<close>

definition accumulate_cls :: "real trow list \<Rightarrow> nat \<Rightarrow> stats \<Rightarrow> stats" where
  "accumulate_cls rows cls st =
     (let cls_inds = where_idx (\<lambda>t. fst t = cls) rows in
      if length cls_inds > 0 then
        st \<lparr> class_counts :=
               (class_counts st)[cls := class_counts st ! cls + real (length cls_inds)],
             sums_tab :=
               (sums_tab st)[cls := vadd (sums_tab st ! cls)
                                  (vsum (map (\<lambda>i. snd (rows ! i)) cls_inds))],
             squared_sums :=
               (squared_sums st)[cls := vadd (squared_sums st ! cls)
                                  (vsum (map (\<lambda>i. vsquare (snd (rows ! i))) cls_inds))] \<rparr>
      else st)"

definition accumulate :: "nat \<Rightarrow> real trow list \<Rightarrow> stats \<Rightarrow> stats" where
  "accumulate ncls rows st = fold (accumulate_cls rows) [1..<ncls] st"

text \<open>
  The state of the first loop.  Target arrays live in \<open>heap\<close>; an entry of the database
  holds the address of its array, so two entries may share one array.
\<close>

record build_state =
  acc :: stats
  roi_gt_ss :: "nat roidb option list"
  heap :: "real trow list list"

fun negate_dx :: "real trow \<Rightarrow> real trow" where
  "negate_dx (c, (dx, dy, dw, dh)) = (c, (dx * (- 1), dy, dw, dh))"

definition flip_box :: "real \<Rightarrow> box \<Rightarrow> box" where
  "flip_box width b = (width - col2 b - 1, col1 b, width - col0 b - 1, col3 b)"

text \<open>
  One iteration of the first loop, for image \<open>i\<close>.  \<^verbatim>\<open>np.vstack\<close> allocates the array
  \<open>bb_targets\<close> at a fresh address \<open>a\<close>.  In the flipped branch \<^verbatim>\<open>fliped_bb\<close> is a copy,
  while \<^verbatim>\<open>bb_targets_flipped = bb_targets\<close> binds a second name to the array at \<open>a\<close>: the
  in-place negation writes to \<open>a\<close>, and the flipped entry stores \<open>a\<close>.
\<close>

definition combine_step ::
  "'a pascalvoc_attrs_scheme \<Rightarrow> env \<Rightarrow> roi_gt list \<Rightarrow> roi_ss list \<Rightarrow> nat \<Rightarrow>
     build_state \<Rightarrow> error + build_state" where
  "combine_step self ev roi_gts roi_sss i s =
     (if i \<ge> length (roi_gt_ss s) then Inl IndexError
      else
        (let g = roi_gts ! i; p = roi_sss ! i;
             bbv = map as_float (gt_bb g) @ ss_bb p;
             image_file = image_path self @ ''/'' @ gt_img_id g @ ''.jpg'';
             a = length (heap s);
             entry = \<lparr> bb = bbv,
                       db_gt_classes = gt_classes g @ ss_gt_classes p,
                       db_gt_overlaps = gt_overlaps g @ ss_gt_overlaps p,
                       max_overlap_area = gt_max_overlap_area g @ ss_max_overlap_area p,
                       max_overlap_class = gt_max_overlap_class g @ ss_max_overlap_class p,
                       img_id = gt_img_id g,
                       flipped = False,
                       img_file = image_file,
                       bb_targets = a \<rparr>;
             s1 = s \<lparr> roi_gt_ss := (roi_gt_ss s)[i := Some entry],
                      heap := heap s @ [gt_bb_targets g @ ss_bb_targets p] \<rparr>;
             s2 = s1 \<lparr> acc := accumulate (num_classes self) (heap s1 ! a) (acc s1) \<rparr>
         in if add_flipped self then
              (let width = real (fst (image_size ev image_file));
                   fliped_bb = map (flip_box width) bbv;
                   s3 = s2 \<lparr> heap := (heap s2)[a := map negate_dx (heap s2 ! a)] \<rparr>
               in if i + num_images self \<ge> length (roi_gt_ss s3) then Inl IndexError
                  else
                    (let s4 = s3 \<lparr> roi_gt_ss := (roi_gt_ss s3)[i + num_images self :=
                                      Some (entry \<lparr> bb := fliped_bb, flipped := True \<rparr>)] \<rparr>
                     in Inr (s4 \<lparr> acc := accumulate (num_classes self) (heap s4 ! a) (acc s4) \<rparr>)))
            else Inr s2))"

definition compute_means :: "stats \<Rightarrow> real quad list" where
  "compute_means st = map (\<lambda>(s, c). map_quad (\<lambda>x. x / c) s) (zip (sums_tab st) (class_counts st))"

definition compute_stds :: "stats \<Rightarrow> npfloat quad list" where
  "compute_stds st =
     map (\<lambda>(q, (c, m)). zip_quad (\<lambda>x y. np_sqrt (x / c - y ^ 2)) q m)
       (zip (squared_sums st) (zip (class_counts st) (compute_means st)))"

text \<open>
  The two in-place statements of the normalisation for one class: the rows of that class
  have the mean subtracted, then are divided by the standard deviation.
\<close>

definition normalize_cls ::
  "real quad list \<Rightarrow> npfloat quad list \<Rightarrow> nat \<Rightarrow> npfloat trow list \<Rightarrow> npfloat trow list" where
  "normalize_cls means stds cls rows =
     (let cls_inds = where_idx (\<lambda>t. fst t = cls) rows;
          rows1 = fold (\<lambda>i rs. rs[i := (fst (rs ! i),
                                         zip_quad np_sub (snd (rs ! i)) (means ! cls))])
                    cls_inds rows
      in fold (\<lambda>i rs. rs[i := (fst (rs ! i), zip_quad np_div (snd (rs ! i)) (stds ! cls))])
           cls_inds rows1)"

definition normalize_targets ::
  "nat \<Rightarrow> real quad list \<Rightarrow> npfloat quad list \<Rightarrow> npfloat trow list \<Rightarrow> npfloat trow list" where
  "normalize_targets ncls means stds rows = fold (normalize_cls means stds) [1..<ncls] rows"

definition as_npfloat :: "real trow \<Rightarrow> npfloat trow" where
  "as_npfloat t = (fst t, map_quad Fin (snd t))"

text \<open>
  The second loop visits the entries \<open>0 .. num_images - 1\<close> only and normalises the array
  each of them points to.
\<close>

definition normalize_step ::
  "nat \<Rightarrow> real quad list \<Rightarrow> npfloat quad list \<Rightarrow> nat roidb option list \<Rightarrow> nat \<Rightarrow>
     npfloat trow list list \<Rightarrow> error + npfloat trow list list" where
  "normalize_step ncls means stds slots i hp =
     (if i \<ge> length slots then Inl IndexError
      else case slots ! i of
        None \<Rightarrow> Inl TypeError
      | Some e \<Rightarrow>
          (let a = bb_targets e in
           if a \<ge> length hp then Inl IndexError
           else Inr (hp[a := normalize_targets ncls means stds (hp ! a)])))"

definition initial_state :: "'a pascalvoc_attrs_scheme \<Rightarrow> build_state" where
  "initial_state self =
     \<lparr> acc = \<lparr> class_counts = replicate (num_classes self) (0 + FRCN_EPS),
               sums_tab = replicate (num_classes self) (0, 0, 0, 0),
               squared_sums = replicate (num_classes self) (0, 0, 0, 0) \<rparr>,
       roi_gt_ss = replicate (num_image_entries self) None,
       heap = [] \<rparr>"

text \<open>The first loop alone: the database before normalisation.\<close>

definition combine_loop ::
  "'a pascalvoc_attrs_scheme \<Rightarrow> env \<Rightarrow> roi_gt list \<Rightarrow> roi_ss list \<Rightarrow> error + build_state" where
  "combine_loop self ev roi_gts roi_sss =
     (if \<not> (length roi_gts = length roi_sss \<and> length roi_sss = num_images self)
      then Inl AssertionError
      else foldM_err (combine_step self ev roi_gts roi_sss) [0..<num_images self]
             (initial_state self))"

definition combine_gt_ss_roi ::
  "'a pascalvoc_attrs_scheme \<Rightarrow> env \<Rightarrow> roi_gt list \<Rightarrow> roi_ss list \<Rightarrow>
     error + (nat roidb option list \<times> npfloat trow list list)" where
  "combine_gt_ss_roi self ev roi_gts roi_sss =
     (case combine_loop self ev roi_gts roi_sss of
        Inl e \<Rightarrow> Inl e
      | Inr s \<Rightarrow>
          (let means = compute_means (acc s);
               stds = compute_stds (acc s)
           in case foldM_err (normalize_step (num_classes self) means stds (roi_gt_ss s))
                     [0..<num_images self] (map (map as_npfloat) (heap s)) of
                Inl e \<Rightarrow> Inl e
              | Inr hp \<Rightarrow> Inr (roi_gt_ss s, hp)))"

text \<open>The database as a reader sees it: every entry with the content of its array.\<close>

definition deref :: "'a list \<Rightarrow> nat roidb \<Rightarrow> 'a roidb" where
  "deref hp e =
     \<lparr> bb = bb e, db_gt_classes = db_gt_classes e, db_gt_overlaps = db_gt_overlaps e,
       max_overlap_area = max_overlap_area e, max_overlap_class = max_overlap_class e,
       img_id = img_id e, flipped = flipped e, img_file = img_file e,
       bb_targets = hp ! bb_targets e \<rparr>"

definition view_db :: "nat roidb option list \<times> 'a list \<Rightarrow> 'a roidb option list" where
  "view_db r = map (map_option (deref (snd r))) (fst r)"

subsection \<open>Expanding compact targets: \<^verbatim>\<open>_get_bbox_regression_labels\<close>\<close>

fun quad_list :: "'a quad \<Rightarrow> 'a list" where
  "quad_list (a, b, c, d) = [a, b, c, d]"

text \<open>The slice assignment \<^verbatim>\<open>row[start:start + 4] = vals\<close> for a slice inside the row.\<close>

definition set_slice :: "'a list \<Rightarrow> nat \<Rightarrow> 'a list \<Rightarrow> 'a list" where
  "set_slice row start vals = take start row @ vals @ drop (start + 4) row"

text \<open>
  The rows of \<open>bbox_targets\<close> and \<open>bbox_loss_weights\<close> for one row of the compact data.  A
  class beyond \<open>num_classes\<close> leaves no room for the four values: numpy raises.
\<close>

definition expand_row :: "nat \<Rightarrow> npfloat trow \<Rightarrow> error + (npfloat list \<times> real list)" where
  "expand_row ncls t =
     (let cls = fst t; start = 4 * cls in
      if cls > 0 then
        (if cls \<ge> ncls then Inl ValueError
         else Inr (set_slice (replicate (4 * ncls) (Fin 0)) start (quad_list (snd t)),
                   set_slice (replicate (4 * ncls) 0) start [1, 1, 1, 1]))
      else Inr (replicate (4 * ncls) (Fin 0), replicate (4 * ncls) 0))"

definition get_bbox_regression_labels ::
  "npfloat trow list \<Rightarrow> nat \<Rightarrow> error + (npfloat list list \<times> real list list)" where
  "get_bbox_regression_labels bbox_target_data ncls =
     (case mapM_err (expand_row ncls) bbox_target_data of
        Inl e \<Rightarrow> Inl e
      | Inr rows \<Rightarrow> Inr (map fst rows, map snd rows))"

subsection \<open>Sampling foreground and background regions: \<^verbatim>\<open>_sample_fg_bg_rois\<close>\<close>

text \<open>\<^verbatim>\<open>int(x)\<close> of a float truncates towards zero.\<close>

definition py_int :: "real \<Rightarrow> int" where
  "py_int x = (if x \<ge> 0 then \<lfloor>x\<rfloor> else \<lceil>x\<rceil>)"

text \<open>
  \<^verbatim>\<open>np.random.choice(a, size=k, replace=False)\<close>: the drawn sample is given by a
  function \<open>draw\<close>; numpy raises for a negative size and for a size beyond the population.
\<close>

definition np_random_choice ::
  "(nat list \<Rightarrow> nat \<Rightarrow> nat list) \<Rightarrow> nat list \<Rightarrow> int \<Rightarrow> error + nat list" where
  "np_random_choice draw a k =
     (if k < 0 \<or> k > int (length a) then Inl ValueError else Inr (draw a (nat k)))"

text \<open>
  What numpy promises of a draw without replacement: \<open>k\<close> entries of \<open>a\<close> at \<open>k\<close> different
  positions.
\<close>

definition valid_draw :: "(nat list \<Rightarrow> nat \<Rightarrow> nat list) \<Rightarrow> bool" where
  "valid_draw draw \<longleftrightarrow>
     (\<forall>a k. k \<le> length a \<longrightarrow>
        (\<exists>ps. length ps = k \<and> distinct ps \<and> set ps \<subseteq> {..<length a} \<and>
              draw a k = map (\<lambda>p. a ! p) ps))"

text \<open>\<^verbatim>\<open>a[range(k)]\<close>: the first \<open>k\<close> entries, none for \<open>k \<le> 0\<close>.\<close>

definition index_range :: "nat list \<Rightarrow> int \<Rightarrow> error + nat list" where
  "index_range a k = (if k > int (length a) then Inl IndexError else Inr (take (nat k) a))"

text \<open>\<^verbatim>\<open>labels[k:] = 0\<close> with Python's reading of a negative start.\<close>

definition slice_start :: "nat \<Rightarrow> int \<Rightarrow> nat" where
  "slice_start n k = (if k < 0 then nat (max 0 (int n + k)) else min (nat k) n)"

definition clamp_from :: "nat list \<Rightarrow> int \<Rightarrow> nat list" where
  "clamp_from labels k =
     (let s = slice_start (length labels) k in take s labels @ replicate (length labels - s) 0)"

record sample =
  s_labels :: "nat list"
  s_overlaps :: "real list"
  s_rois :: "box list"
  s_bbox_targets :: "npfloat list list"
  s_bbox_loss_weights :: "real list list"

definition sample_fg_bg_rois ::
  "npfloat trow list roidb \<Rightarrow> real \<Rightarrow> int \<Rightarrow> nat \<Rightarrow> bool \<Rightarrow>
     (nat list \<Rightarrow> nat \<Rightarrow> nat list) \<Rightarrow> error + sample" where
  "sample_fg_bg_rois roidb fg_rois_per_img rois_per_img ncls randomness draw =
     (let labels = max_overlap_class roidb;
          overlaps = max_overlap_area roidb;
          rois = bb roidb;
          fg_inds = where_idx (\<lambda>ov. ov \<ge> FRCN_FG_IOU_THRE) overlaps;
          fg_rois_per_this_image = py_int (min fg_rois_per_img (real (length fg_inds)))
      in case (if length fg_inds > 0 then
                 (if randomness then np_random_choice draw fg_inds fg_rois_per_this_image
                  else index_range fg_inds fg_rois_per_this_image)
               else Inr fg_inds) of
           Inl e \<Rightarrow> Inl e
         | Inr fg_sel \<Rightarrow>
             (let bg_inds = where_idx (\<lambda>ov. ov < FRCN_BG_IOU_THRE_HIGH
                                             \<and> ov \<ge> FRCN_BG_IOU_THRE_LOW) overlaps;
                  bg_rois_per_this_image =
                    min (rois_per_img - fg_rois_per_this_image) (int (length bg_inds))
              in case (if length bg_inds > 0 then
                         (if randomness
                          then np_random_choice draw bg_inds bg_rois_per_this_image
                          else index_range bg_inds bg_rois_per_this_image)
                       else Inr bg_inds) of
                   Inl e \<Rightarrow> Inl e
                 | Inr bg_sel \<Rightarrow>
                     (let keep_inds = fg_sel @ bg_sel in
                      if list_ex (\<lambda>i. i \<ge> length labels) keep_inds then Inl IndexError
                      else
                        (let labels1 = map (\<lambda>i. labels ! i) keep_inds;
                             labels2 = clamp_from labels1 fg_rois_per_this_image;
                             overlaps1 = map (\<lambda>i. overlaps ! i) keep_inds
                         in if list_ex (\<lambda>i. i \<ge> length rois) keep_inds then Inl IndexError
                            else if list_ex (\<lambda>i. i \<ge> length (bb_targets roidb)) keep_inds
                            then Inl IndexError
                            else
                              (case get_bbox_regression_labels
                                      (map (\<lambda>i. bb_targets roidb ! i) keep_inds) ncls of
                                 Inl e \<Rightarrow> Inl e
                               | Inr (bbox_targets, bbox_loss_weights) \<Rightarrow>
                                   Inr \<lparr> s_labels = labels2,
                                         s_overlaps = overlaps1,
                                         s_rois = map (\<lambda>i. rois ! i) keep_inds,
                                         s_bbox_targets = bbox_targets,
                                         s_bbox_loss_weights = bbox_loss_weights \<rparr>)))))"

text \<open>
  An entry of the database whose arrays have one row for each region and whose target
  classes are below \<open>ncls\<close>, as the builder produces them.
\<close>

definition consistent_roidb :: "nat \<Rightarrow> npfloat trow list roidb \<Rightarrow> bool" where
  "consistent_roidb ncls d \<longleftrightarrow>
     length (max_overlap_class d) = length (max_overlap_area d) \<and>
     length (bb d) = length (max_overlap_area d) \<and>
     length (bb_targets d) = length (max_overlap_area d) \<and>
     list_all (\<lambda>t. fst t < ncls) (bb_targets d)"

text \<open>The two pools the sampler draws from.\<close>

definition fg_pool :: "'t roidb \<Rightarrow> nat list" where
  "fg_pool d = where_idx (\<lambda>ov. ov \<ge> FRCN_FG_IOU_THRE) (max_overlap_area d)"

definition bg_pool :: "'t roidb \<Rightarrow> nat list" where
  "bg_pool d =
     where_idx (\<lambda>ov. ov < FRCN_BG_IOU_THRE_HIGH \<and> ov \<ge> FRCN_BG_IOU_THRE_LOW)
       (max_overlap_area d)"

subsection \<open>The constructor: \<^verbatim>\<open>PASCALVOC.__init__\<close>\<close>

record args =
  arg_image_set :: string
  arg_year :: string
  arg_add_flipped :: bool
  arg_overlap_thre :: "real option"
  arg_output_type :: int
  arg_n_mb :: "int option"
  arg_img_per_batch :: "int option"
  arg_rois_per_img :: "int option"
  arg_rois_random_sample :: bool
  arg_shuffle :: bool

text \<open>\<^verbatim>\<open>x if x else d\<close>: \<open>None\<close> and 0 are false.\<close>

definition value_or :: "'a::zero option \<Rightarrow> 'a \<Rightarrow> 'a" where
  "value_or x d = (case x of None \<Rightarrow> d | Some v \<Rightarrow> if v = 0 then d else v)"

text \<open>The keys of \<^verbatim>\<open>dataset_meta\<close> that \<^verbatim>\<open>load_voc\<close> looks up for a year.\<close>

definition dataset_meta_keys :: "string list" where
  "dataset_meta_keys = [''test-2007'', ''trainval-2007'', ''trainval-2012'']"

definition load_voc :: "env \<Rightarrow> string \<Rightarrow> string \<Rightarrow> error + string" where
  "load_voc ev dataset year =
     (if dataset @ ''-'' @ year \<in> set dataset_meta_keys then Inr (voc_root ev)
      else Inl KeyError)"

text \<open>
  The attributes, in the order of the source.  Fetching the archives and the buffers of
  the backend are outside the model; \<^verbatim>\<open>np.zeros\<close> raises for a negative batch size.
\<close>

definition init_attrs :: "args \<Rightarrow> env \<Rightarrow> error + pascalvoc_attrs" where
  "init_attrs a ev =
     (let rois_per_img' = value_or (arg_rois_per_img a) FRCN_ROI_PER_IMAGE;
          img_per_batch' = value_or (arg_img_per_batch a) FRCN_IMG_PER_BATCH;
          fg_rois = FRCN_FG_FRAC * real_of_int rois_per_img'
      in case load_voc ev (arg_image_set a) (arg_year a) of
           Inl e \<Rightarrow> Inl e
         | Inr datadir \<Rightarrow>
             if img_per_batch' < 0 then Inl ValueError
             else case index_file ev of
               None \<Rightarrow> Inl AssertionError
             | Some lines \<Rightarrow>
                 (let n = length lines;
                      entries = (if arg_add_flipped a then n * 2 else n);
                      nb = int entries div img_per_batch'
                  in Inr \<lparr> add_flipped = arg_add_flipped a,
                           overlap_thre = value_or (arg_overlap_thre a) FRCN_IOU_THRE,
                           output_type = arg_output_type a,
                           rois_per_image = rois_per_img',
                           img_per_batch = img_per_batch',
                           fg_rois_per_image = fg_rois,
                           bg_rois_per_image = real_of_int rois_per_img' - fg_rois,
                           rois_per_batch = rois_per_img' * img_per_batch',
                           rois_random_sample = arg_rois_random_sample a,
                           shuffle = arg_shuffle a,
                           num_classes = PASCAL_VOC_NUM_CLASSES,
                           image_path = datadir @ ''/JPEGImages'',
                           image_index = lines,
                           num_images = n,
                           num_image_entries = entries,
                           ndata = int entries * rois_per_img',
                           nbatches = (case arg_n_mb a of None \<Rightarrow> nb | Some m \<Rightarrow> m) \<rparr>))"

text \<open>The region database: loaded from the cache file when it exists, built otherwise.\<close>

definition PASCALVOC_init :: "args \<Rightarrow> env \<Rightarrow> error + pascalvoc" where
  "PASCALVOC_init a ev =
     (case init_attrs a ev of
        Inl e \<Rightarrow> Inl e
      | Inr self \<Rightarrow>
          (case cache_file ev of
             Some db \<Rightarrow> Inr (pascalvoc_attrs.extend self (pascalvoc.fields db))
           | None \<Rightarrow>
               (case load_pascal_roi_groundtruth self ev of
                  Inl e \<Rightarrow> Inl e
                | Inr roi_gts \<Rightarrow>
                    (case load_pascal_roi_selectivesearch self ev roi_gts of
                       Inl e \<Rightarrow> Inl e
                     | Inr roi_sss \<Rightarrow>
                         (case combine_gt_ss_roi self ev roi_gts roi_sss of
                            Inl e \<Rightarrow> Inl e
                          | Inr r \<Rightarrow>
                              Inr (pascalvoc_attrs.extend self
                                     (pascalvoc.fields (view_db r))))))))"

subsection \<open>One epoch: \<^verbatim>\<open>PASCALVOC.__iter__\<close>\<close>

text \<open>
  The random choices of an epoch: the permutation of the entries, and the draw used for
  the image in slot \<open>im_i\<close> of batch \<open>b\<close>.
\<close>

record rng =
  permutation :: "nat \<Rightarrow> nat list"
  draw_for :: "nat \<Rightarrow> nat \<Rightarrow> nat list \<Rightarrow> nat \<Rightarrow> nat list"

definition valid_rng :: "rng \<Rightarrow> bool" where
  "valid_rng g \<longleftrightarrow>
     (\<forall>n. distinct (permutation g n) \<and> set (permutation g n) = {..<n}) \<and>
     (\<forall>b i. valid_draw (draw_for g b i))"

text \<open>Python's \<^verbatim>\<open>xs[start:end]\<close>.\<close>

definition slice_bound :: "nat \<Rightarrow> int \<Rightarrow> nat" where
  "slice_bound n k = (if k < 0 then nat (max 0 (int n + k)) else min (nat k) n)"

definition py_slice :: "'a list \<Rightarrow> int \<Rightarrow> int \<Rightarrow> 'a list" where
  "py_slice xs start end' =
     (let s = slice_bound (length xs) start; e = slice_bound (length xs) end'
      in take (e - s) (drop s xs))"

text \<open>
  The scale of an image of size \<open>(w, h)\<close>.  \<^verbatim>\<open>np.round(x) > 1000\<close> rounds halves to even,
  so it holds exactly when \<open>x > 1000.5\<close>.
\<close>

definition FRCN_MIN_SCALE :: real where
  "FRCN_MIN_SCALE = 600"

definition FRCN_MAX_SCALE :: real where
  "FRCN_MAX_SCALE = 1000"

definition image_scale :: "nat \<times> nat \<Rightarrow> error + real" where
  "image_scale im_size =
     (let im_size_min = min (fst im_size) (snd im_size);
          im_size_max = max (fst im_size) (snd im_size)
      in case py_float_div FRCN_MIN_SCALE (real im_size_min) of
           Inl e \<Rightarrow> Inl e
         | Inr im_scale \<Rightarrow>
             if im_scale * real im_size_max > FRCN_MAX_SCALE + 1 / 2
             then py_float_div FRCN_MAX_SCALE (real im_size_max)
             else Inr im_scale)"

text \<open>
  The arrays filled for one batch.  The pixels are outside the model: a slot of
  \<open>img_np\<close> records the file, the flip flag and the scale of the image put there.
\<close>

record blobs =
  rois_mb :: "real list list"
  labels_blob :: "nat list"
  bbox_targets_blob :: "npfloat list list"
  bbox_loss_blob :: "real list list"
  img_np :: "(string \<times> bool \<times> real) option list"

text \<open>\<^verbatim>\<open>blob[off : off + len(rows)] = rows\<close>; a slice cut short by the end of the blob raises.\<close>

definition put_rows :: "'a list \<Rightarrow> nat \<Rightarrow> 'a list \<Rightarrow> error + 'a list" where
  "put_rows blob off rows =
     (if off + length rows \<le> length blob
      then Inr (take off blob @ rows @ drop (off + length rows) blob)
      else Inl ValueError)"

definition scale_box :: "real \<Rightarrow> box \<Rightarrow> box" where
  "scale_box im_scale b = map_quad (\<lambda>x. x * im_scale) b"

text \<open>The body of the loop over the images of one batch.\<close>

definition fill_image ::
  "pascalvoc \<Rightarrow> env \<Rightarrow> (nat list \<Rightarrow> nat \<Rightarrow> nat list) \<Rightarrow>
     nat \<times> npfloat trow list roidb option \<Rightarrow> blobs \<Rightarrow> error + blobs" where
  "fill_image self ev draw slot bl =
     (case snd slot of
        None \<Rightarrow> Inl TypeError
      | Some db \<Rightarrow>
          (case image_scale (image_size ev (img_file db)) of
             Inl e \<Rightarrow> Inl e
           | Inr im_scale \<Rightarrow>
               (case sample_fg_bg_rois db (fg_rois_per_image self) (rois_per_image self)
                       (num_classes self) (rois_random_sample self) draw of
                  Inl e \<Rightarrow> Inl e
                | Inr smp \<Rightarrow>
                    (let im_i = fst slot;
                         rois = map (scale_box im_scale) (s_rois smp);
                         off = im_i * nat (rois_per_image self);
                         rois_this_image = map (\<lambda>r. real im_i # quad_list r) rois
                     in case put_rows (rois_mb bl) off rois_this_image of
                          Inl e \<Rightarrow> Inl e
                        | Inr rois_mb' \<Rightarrow>
                     case put_rows (labels_blob bl) off (s_labels smp) of
                          Inl e \<Rightarrow> Inl e
                        | Inr labels' \<Rightarrow>
                     case put_rows (bbox_targets_blob bl) off (s_bbox_targets smp) of
                          Inl e \<Rightarrow> Inl e
                        | Inr targets' \<Rightarrow>
                     case put_rows (bbox_loss_blob bl) off (s_bbox_loss_weights smp) of
                          Inl e \<Rightarrow> Inl e
                        | Inr loss' \<Rightarrow>
                            Inr \<lparr> rois_mb = rois_mb', labels_blob = labels',
                                  bbox_targets_blob = targets', bbox_loss_blob = loss',
                                  img_np = (img_np bl)[im_i :=
                                     Some (img_file db, flipped db, im_scale)] \<rparr>))))"

text \<open>
  What one step of the generator yields, by \<open>output_type\<close>: \<open>X\<close> and \<open>Y\<close> of the source.
  The labels are the flat labels; their one-hot form is the backend's.
\<close>

datatype batch =
  ImgRoisLabelsBB "(string \<times> bool \<times> real) option list" "real list list" "nat list"
      "npfloat list list" "real list list"
| ImgRoisLabels "(string \<times> bool \<times> real) option list" "real list list" "nat list"
| ImgLabels "(string \<times> bool \<times> real) option list" "nat list"

definition select_output :: "int \<Rightarrow> blobs \<Rightarrow> error + batch" where
  "select_output ot bl =
     (if ot = 0 then
        Inr (ImgRoisLabelsBB (img_np bl) (rois_mb bl) (labels_blob bl)
               (bbox_targets_blob bl) (bbox_loss_blob bl))
      else if ot = 1 then Inr (ImgRoisLabels (img_np bl) (rois_mb bl) (labels_blob bl))
      else if ot = 2 then Inr (ImgLabels (img_np bl) (labels_blob bl))
      else Inl ValueError)"

text \<open>The entries a batch reads: \<^verbatim>\<open>shuf_idx[start:end]\<close>.\<close>

definition batch_inds :: "pascalvoc \<Rightarrow> nat list \<Rightarrow> nat \<Rightarrow> nat list" where
  "batch_inds self shuf_idx b =
     py_slice shuf_idx (int b * img_per_batch self) ((int b + 1) * img_per_batch self)"

text \<open>The body of the loop over the batches: what it yields, or the exception it raises.\<close>

definition make_batch ::
  "pascalvoc \<Rightarrow> env \<Rightarrow> rng \<Rightarrow> nat list \<Rightarrow> nat \<Rightarrow> error + batch" where
  "make_batch self ev g shuf_idx b =
     (let db_inds = batch_inds self shuf_idx b in
      case mapM_err (\<lambda>i. if i < length (roi_db self) then Inr (roi_db self ! i)
                          else Inl IndexError) db_inds of
        Inl e \<Rightarrow> Inl e
      | Inr mb_db \<Rightarrow>
          if rois_per_batch self < 0 then Inl ValueError
          else
            (let n = nat (rois_per_batch self);
                 bl0 = \<lparr> rois_mb = replicate n (replicate 5 0),
                         labels_blob = replicate n 0,
                         bbox_targets_blob = replicate n (replicate (4 * num_classes self) (Fin 0)),
                         bbox_loss_blob = replicate n (replicate (4 * num_classes self) 0),
                         img_np = replicate (nat (img_per_batch self)) None \<rparr>
             in case foldM_err (\<lambda>slot. fill_image self ev (draw_for g b (fst slot)) slot)
                       (zip [0..<length mb_db] mb_db) bl0 of
                  Inl e \<Rightarrow> Inl e
                | Inr bl \<Rightarrow> select_output (output_type self) bl))"

text \<open>
  Running the generator to its end: the batches yielded, and the exception that ended
  the epoch if there was one.
\<close>

primrec run_generator :: "(nat \<Rightarrow> error + batch) \<Rightarrow> nat list \<Rightarrow> batch list \<times> error option" where
  "run_generator step [] = ([], None)"
| "run_generator step (b # bs) =
     (case step b of
        Inl e \<Rightarrow> ([], Some e)
      | Inr y \<Rightarrow> (y # fst (run_generator step bs), snd (run_generator step bs)))"

definition shuffled_index :: "pascalvoc \<Rightarrow> rng \<Rightarrow> nat list" where
  "shuffled_index self g =
     (if \<not> shuffle self then [0..<num_image_entries self]
      else permutation g (num_image_entries self))"

definition PASCALVOC_iter :: "pascalvoc \<Rightarrow> env \<Rightarrow> rng \<Rightarrow> batch list \<times> error option" where
  "PASCALVOC_iter self ev g =
     run_generator (make_batch self ev g (shuffled_index self g)) [0..<nat (nbatches self)]"

text \<open>The entries of the database that an epoch reads, batch by batch.\<close>

definition visited :: "pascalvoc \<Rightarrow> rng \<Rightarrow> nat list" where
  "visited self g =
     concat (map (batch_inds self (shuffled_index self g)) [0..<nat (nbatches self)])"

text \<open>
  A database the iterator can read: one entry for each image entry, every entry present
  and consistent, every image of positive size.
\<close>

definition readable_db :: "pascalvoc \<Rightarrow> env \<Rightarrow> bool" where
  "readable_db self ev \<longleftrightarrow>
     length (roi_db self) = num_image_entries self \<and>
     list_all (\<lambda>e. case e of
                  None \<Rightarrow> False
                | Some d \<Rightarrow> consistent_roidb (num_classes self) d \<and>
                    0 < fst (image_size ev (img_file d)) \<and>
                    0 < snd (image_size ev (img_file d))) (roi_db self)"

subsection \<open>The state of the builder, image by image\<close>

text \<open>
  The target rows of image \<open>i\<close> as the loaders computed them, the content of its array
  after the first loop, and the two entries that point to it.
\<close>

definition raw_targets :: "roi_gt list \<Rightarrow> roi_ss list \<Rightarrow> nat \<Rightarrow> real trow list" where
  "raw_targets roi_gts roi_sss i = gt_bb_targets (roi_gts ! i) @ ss_bb_targets (roi_sss ! i)"

definition stored_targets ::
  "'a pascalvoc_attrs_scheme \<Rightarrow> roi_gt list \<Rightarrow> roi_ss list \<Rightarrow> nat \<Rightarrow> real trow list" where
  "stored_targets self roi_gts roi_sss i =
     (if add_flipped self then map negate_dx (raw_targets roi_gts roi_sss i)
      else raw_targets roi_gts roi_sss i)"

definition plain_entry ::
  "'a pascalvoc_attrs_scheme \<Rightarrow> roi_gt list \<Rightarrow> roi_ss list \<Rightarrow> nat \<Rightarrow> nat roidb" where
  "plain_entry self roi_gts roi_sss i =
     \<lparr> bb = map as_float (gt_bb (roi_gts ! i)) @ ss_bb (roi_sss ! i),
       db_gt_classes = gt_classes (roi_gts ! i) @ ss_gt_classes (roi_sss ! i),
       db_gt_overlaps = gt_overlaps (roi_gts ! i) @ ss_gt_overlaps (roi_sss ! i),
       max_overlap_area = gt_max_overlap_area (roi_gts ! i) @ ss_max_overlap_area (roi_sss ! i),
       max_overlap_class =
         gt_max_overlap_class (roi_gts ! i) @ ss_max_overlap_class (roi_sss ! i),
       img_id = gt_img_id (roi_gts ! i),
       flipped = False,
       img_file = image_path self @ ''/'' @ gt_img_id (roi_gts ! i) @ ''.jpg'',
       bb_targets = i \<rparr>"

definition flipped_entry ::
  "'a pascalvoc_attrs_scheme \<Rightarrow> env \<Rightarrow> roi_gt list \<Rightarrow> roi_ss list \<Rightarrow> nat \<Rightarrow> nat roidb" where
  "flipped_entry self ev roi_gts roi_sss i =
     (plain_entry self roi_gts roi_sss i)
       \<lparr> bb := map (flip_box (real (fst (image_size ev
                    (image_path self @ ''/'' @ gt_img_id (roi_gts ! i) @ ''.jpg'')))))
                 (map as_float (gt_bb (roi_gts ! i)) @ ss_bb (roi_sss ! i)),
         flipped := True \<rparr>"

text \<open>What one image adds to the accumulators: its rows, and its rows again once negated.\<close>

definition acc_image :: "'a pascalvoc_attrs_scheme \<Rightarrow> real trow list \<Rightarrow> stats \<Rightarrow> stats" where
  "acc_image self rows st =
     (if add_flipped self
      then accumulate (num_classes self) (map negate_dx rows)
             (accumulate (num_classes self) rows st)
      else accumulate (num_classes self) rows st)"

text \<open>A normalised row: the mean of its class subtracted, then divided by the deviation.\<close>

definition norm_row :: "real quad list \<Rightarrow> npfloat quad list \<Rightarrow> npfloat trow \<Rightarrow> npfloat trow" where
  "norm_row means stds t =
     (fst t, zip_quad np_div (zip_quad np_sub (snd t) (means ! fst t)) (stds ! fst t))"

text \<open>The accumulators have one row for each class, and the sums of class \<open>c\<close> are zero.\<close>

definition zero_sums :: "nat \<Rightarrow> nat \<Rightarrow> stats \<Rightarrow> bool" where
  "zero_sums ncls c st \<longleftrightarrow>
     length (class_counts st) = ncls \<and> length (sums_tab st) = ncls \<and>
     length (squared_sums st) = ncls \<and>
     sums_tab st ! c = (0, 0, 0, 0) \<and> squared_sums st ! c = (0, 0, 0, 0)"

text \<open>
  The accumulators of one class, and what the rows of that class add to them in one
  pass of the loop over the classes.
\<close>

definition wf_stats :: "nat \<Rightarrow> stats \<Rightarrow> bool" where
  "wf_stats ncls st \<longleftrightarrow>
     length (class_counts st) = ncls \<and> length (sums_tab st) = ncls \<and>
     length (squared_sums st) = ncls"

definition class_stats :: "nat \<Rightarrow> stats \<Rightarrow> real \<times> real quad \<times> real quad" where
  "class_stats c st = (class_counts st ! c, sums_tab st ! c, squared_sums st ! c)"

definition add_rows ::
  "nat \<Rightarrow> real trow list \<Rightarrow> real \<times> real quad \<times> real quad \<Rightarrow> real \<times> real quad \<times> real quad" where
  "add_rows c rows x =
     (let rs = filter (\<lambda>t. fst t = c) rows in
      (fst x + real (length rs),
       vadd (fst (snd x)) (vsum (map snd rs)),
       vadd (snd (snd x)) (vsum (map (\<lambda>t. vsquare (snd t)) rs))))"

subsection \<open>Example data\<close>

text \<open>
  One image with the annotated object \<open>bird\<close> at \<open>(10, 10, 50, 50)\<close> and three proposals:
  two that overlap it well and one that overlaps it little.
\<close>

definition example_roidb :: "npfloat trow list roidb" where
  "example_roidb =
     \<lparr> bb = [(10, 10, 50, 50), (12, 12, 48, 48), (10, 10, 48, 50), (30, 30, 70, 70)],
       db_gt_classes = [3, 0, 0, 0],
       db_gt_overlaps = [(replicate 21 0)[3 := 1], (replicate 21 0)[3 := 1369 / 1681],
                         (replicate 21 0)[3 := 1599 / 1681], (replicate 21 0)[3 := 441 / 2921]],
       max_overlap_area = [1, 1369 / 1681, 1599 / 1681, 441 / 2921],
       max_overlap_class = [3, 3, 3, 3],
       img_id = ''000001'',
       flipped = False,
       img_file = ''JPEGImages/000001.jpg'',
       bb_targets = [(3, (Fin 0, Fin 0, Fin 0, Fin 0)), (3, (Fin 0, Fin 0, Fin 1, Fin 1)),
                     (3, (Fin 1, Fin 0, Fin 1, Fin 0)), (0, (Fin 0, Fin 0, Fin 0, Fin 0))] \<rparr>"

text \<open>The deterministic draw: the first \<open>k\<close> entries.\<close>

definition first_k :: "nat list \<Rightarrow> nat \<Rightarrow> nat list" where
  "first_k a k = take k a"

text \<open>
  A dataset of that one image.  The proposals are stored as \<open>[y1, x1, y2, x2]\<close>, 1-based.
\<close>

definition example_env :: env where
  "example_env =
     \<lparr> voc_root = ''VOCdevkit/VOC2007'',
       index_file = Some [''000001''],
       annotation_files =
         (\<lambda>img. if img = ''000001''
                then Some [\<lparr> obj_xmin = 11, obj_ymin = 11, obj_xmax = 51, obj_ymax = 51,
                             obj_name = ''bird'' \<rparr>]
                else None),
       selective_search_file =
         Some \<lparr> boxes = [[(13, 13, 49, 49), (11, 11, 51, 49), (31, 31, 71, 71)]],
                images = [''000001''] \<rparr>,
       cache_file = None,
       image_size = (\<lambda>f. (500, 375)) \<rparr>"

definition example_args :: args where
  "example_args =
     \<lparr> arg_image_set = ''trainval'', arg_year = ''2007'', arg_add_flipped = False,
       arg_overlap_thre = None, arg_output_type = 0, arg_n_mb = None,
       arg_img_per_batch = Some 1, arg_rois_per_img = Some 4,
       arg_rois_random_sample = False, arg_shuffle = False \<rparr>"

definition example_rng :: rng where
  "example_rng = \<lparr> permutation = (\<lambda>n. rev [0..<n]), draw_for = (\<lambda>b i. first_k) \<rparr>"

text \<open>The same dataset with its region database in the cache file, and the object built from it.\<close>

definition cached_env :: env where
  "cached_env = example_env \<lparr> cache_file := Some [Some example_roidb] \<rparr>"

definition example_attrs :: pascalvoc_attrs where
  "example_attrs =
     \<lparr> add_flipped = False, overlap_thre = 1 / 2, output_type = 0,
       rois_per_image = 4, img_per_batch = 1, fg_rois_per_image = 1, bg_rois_per_image = 3,
       rois_per_batch = 4, rois_random_sample = False, shuffle = False,
       num_classes = 21, image_path = ''VOCdevkit/VOC2007/JPEGImages'',
       image_index = [''000001''], num_images = 1, num_image_entries = 1, ndata = 4,
       nbatches = 1 \<rparr>"

definition example_dataset :: pascalvoc where
  "example_dataset = pascalvoc_attrs.extend example_attrs (pascalvoc.fields [Some example_roidb])"

text \<open>Three image entries read two at a time.\<close>

definition three_env :: env where
  "three_env =
     cached_env \<lparr> index_file := Some [''000001'', ''000002'', ''000003''],
                  cache_file := Some [Some example_roidb, Some example_roidb,
                                      Some example_roidb] \<rparr>"

definition three_args :: args where
  "three_args = example_args \<lparr> arg_img_per_batch := Some 2 \<rparr>"

definition three_dataset :: pascalvoc where
  "three_dataset =
     pascalvoc_attrs.extend
       (example_attrs \<lparr> img_per_batch := 2, rois_per_batch := 8,
                        image_index := [''000001'', ''000002'', ''000003''],
                        num_images := 3, num_image_entries := 3, ndata := 12,
                        nbatches := 1 \<rparr>)
       (pascalvoc.fields [Some example_roidb, Some example_roidb, Some example_roidb])"

text \<open>
  The ground truth of the example image, and a variant of the dataset whose only proposal
  overlaps the object too little to be used.
\<close>

definition example_gt :: roi_gt where
  "example_gt =
     \<lparr> gt_bb = [(10, 10, 50, 50)], gt_classes = [3],
       gt_overlaps = [(replicate 21 0)[3 := 1]], gt_img_id = ''000001'',
       gt_max_overlap_area = [1], gt_max_overlap_class = [3],
       gt_bb_targets = [(3, (0, 0, 0, 0))] \<rparr>"

definition gt_only_env :: env where
  "gt_only_env =
     example_env \<lparr> selective_search_file :=
                     Some \<lparr> boxes = [[(31, 31, 71, 71)]], images = [''000001''] \<rparr> \<rparr>"

definition gt_only_ss :: roi_ss where
  "gt_only_ss =
     \<lparr> ss_bb = [(30, 30, 70, 70)], ss_gt_classes = [0],
       ss_gt_overlaps = [(replicate 21 0)[3 := 441 / 2921]],
       ss_max_overlap_area = [441 / 2921], ss_max_overlap_class = [3],
       ss_bb_targets = [(0, (0, 0, 0, 0))] \<rparr>"

text \<open>
  The example dataset built with flipping, and what the loaders return for its image:
  the second proposal lies one pixel to the left of the object's centre, so its \<open>dx\<close> is
  not zero.
\<close>

definition flip_args :: args where
  "flip_args = example_args \<lparr> arg_add_flipped := True \<rparr>"

definition flip_attrs :: pascalvoc_attrs where
  "flip_attrs = example_attrs \<lparr> add_flipped := True, num_image_entries := 2, ndata := 8,
                                nbatches := 2 \<rparr>"

definition example_ss :: roi_ss where
  "example_ss =
     \<lparr> ss_bb = [(12, 12, 48, 48), (10, 10, 48, 50), (30, 30, 70, 70)],
       ss_gt_classes = [0, 0, 0],
       ss_gt_overlaps = [(replicate 21 0)[3 := 1369 / 1681], (replicate 21 0)[3 := 1599 / 1681],
                         (replicate 21 0)[3 := 441 / 2921]],
       ss_max_overlap_area = [1369 / 1681, 1599 / 1681, 441 / 2921],
       ss_max_overlap_class = [3, 3, 3],
       ss_bb_targets =
         [(3, (0, 0, ln ((40 + FRCN_EPS) / (36 + FRCN_EPS)),
                     ln ((40 + FRCN_EPS) / (36 + FRCN_EPS)))),
          (3, (1 / (38 + FRCN_EPS), 0, ln ((40 + FRCN_EPS) / (38 + FRCN_EPS)), 0)),
          (0, (0, 0, 0, 0))] \<rparr>"
section \<open>Properties\<close>

subsection \<open>Facts about the overlap engine\<close>

lemma mapM_err_total:
  assumes "\<And>x. x \<in> set xs \<Longrightarrow> \<exists>y. f x = Inr y"
  shows "\<exists>ys. mapM_err f xs = Inr ys \<and> length ys = length xs \<and>
           (\<forall>i < length xs. f (xs ! i) = Inr (ys ! i))"
  using assms
proof (induction xs)
  case Nil
  show ?case by simp
next
  case (Cons x xs)
  from Cons.prems obtain y where y: "f x = Inr y" by auto
  from Cons obtain ys where ys: "mapM_err f xs = Inr ys" "length ys = length xs"
    "\<forall>i < length xs. f (xs ! i) = Inr (ys ! i)" by auto
  have "\<forall>i < length (x # xs). f ((x # xs) ! i) = Inr ((y # ys) ! i)"
    using y ys(3) by (auto simp: nth_Cons split: nat.splits)
  with y ys(1,2) show ?case by simp
qed

lemma inter_iw_le:
  "inter_iw r g \<le> col2 r - col0 r + 1" "inter_iw r g \<le> col2 g - col0 g + 1"
  by (simp_all add: inter_iw_def)

lemma inter_ih_le:
  "inter_ih r g \<le> col3 r - col1 r + 1" "inter_ih r g \<le> col3 g - col1 g + 1"
  by (simp_all add: inter_ih_def)

lemma union_ua_ge:
  assumes "inter_iw r g > 0" "inter_ih r g > 0"
  shows "inter_iw r g * inter_ih r g \<le> union_ua r g"
proof -
  have a: "inter_iw r g * inter_ih r g \<le> (col2 r - col0 r + 1) * (col3 r - col1 r + 1)"
    using assms inter_iw_le(1) [of r g] inter_ih_le(1) [of r g]
    by (intro mult_mono) auto
  have b: "inter_iw r g * inter_ih r g \<le> gt_box_area g"
    unfolding gt_box_area_def
    using assms inter_iw_le(2) [of r g] inter_ih_le(2) [of r g]
    by (intro mult_mono) auto
  have c: "0 < inter_iw r g * inter_ih r g" using assms by simp
  show ?thesis unfolding union_ua_def using a b c by linarith
qed

lemma overlap_cell_range:
  "\<exists>v. overlap_cell g r = Inr v \<and> 0 \<le> v \<and> v \<le> 1 \<and>
       (inter_iw r g \<le> 0 \<or> inter_ih r g \<le> 0 \<longrightarrow> v = 0)"
proof (cases "inter_iw r g > 0 \<and> inter_ih r g > 0")
  case True
  then have pos: "0 < inter_iw r g * inter_ih r g" by simp
  have le: "inter_iw r g * inter_ih r g \<le> union_ua r g"
    using True union_ua_ge by blast
  then have ua: "0 < union_ua r g" using pos by linarith
  have "overlap_cell g r = Inr (inter_iw r g * inter_ih r g / union_ua r g)"
    using True ua by (simp add: overlap_cell_def py_float_div_def Let_def)
  moreover have "0 \<le> inter_iw r g * inter_ih r g / union_ua r g"
    using pos ua by simp
  moreover have "inter_iw r g * inter_ih r g / union_ua r g \<le> 1"
    using le ua by simp
  ultimately show ?thesis using True by auto
next
  case False
  then have "overlap_cell g r = Inr 0"
    by (auto simp: overlap_cell_def Let_def)
  then show ?thesis by simp
qed


lemma mapM_err_Inr_nth:
  assumes "mapM_err f xs = Inr ys"
  shows "length ys = length xs \<and> (\<forall>i < length xs. f (xs ! i) = Inr (ys ! i))"
  using assms
proof (induction xs arbitrary: ys)
  case Nil
  then show ?case by simp
next
  case (Cons x xs)
  from Cons.prems obtain y zs where y: "f x = Inr y" and zs: "mapM_err f xs = Inr zs"
    and ys: "ys = y # zs"
    by (auto split: sum.splits)
  from Cons.IH [OF zs] have "length zs = length xs"
    and "\<forall>i < length xs. f (xs ! i) = Inr (zs ! i)" by auto
  then show ?case using y ys by (auto simp: nth_Cons split: nat.splits)
qed

lemma overlap_column_total:
  "\<exists>col. mapM_err (overlap_cell g) rp = Inr col \<and> length col = length rp \<and>
     (\<forall>r < length rp. overlap_cell g (rp ! r) = Inr (col ! r))"
  by (rule mapM_err_total) (use overlap_cell_range in blast)

lemma calculate_bb_overlap_cells:
  "\<exists>M. calculate_bb_overlap rp gt = Inr M \<and> length M = length rp \<and>
     (\<forall>r < length rp. length (M ! r) = length gt \<and>
        (\<forall>g < length gt. overlap_cell (gt ! g) (rp ! r) = Inr (M ! r ! g)))"
proof -
  have "\<And>g. g \<in> set gt \<Longrightarrow> \<exists>col. mapM_err (overlap_cell g) rp = Inr col"
    using overlap_column_total by blast
  from mapM_err_total [of gt "\<lambda>g. mapM_err (overlap_cell g) rp", OF this]
  obtain cols where cols: "mapM_err (\<lambda>g. mapM_err (overlap_cell g) rp) gt = Inr cols"
    "length cols = length gt"
    "\<forall>g < length gt. mapM_err (overlap_cell (gt ! g)) rp = Inr (cols ! g)"
    by blast
  let ?M = "map (\<lambda>r. map (\<lambda>col. col ! r) cols) [0..<length rp]"
  have M: "calculate_bb_overlap rp gt = Inr ?M"
    using cols(1) by (simp add: calculate_bb_overlap_def)
  have cell: "overlap_cell (gt ! g) (rp ! r) = Inr (?M ! r ! g)"
    if "r < length rp" "g < length gt" for r g
  proof -
    from cols(3) that(2) have "mapM_err (overlap_cell (gt ! g)) rp = Inr (cols ! g)" by blast
    from mapM_err_Inr_nth [OF this] that(1)
    have "overlap_cell (gt ! g) (rp ! r) = Inr (cols ! g ! r)" by blast
    then show ?thesis using that cols(2) by simp
  qed
  have "length ?M = length rp" by simp
  moreover have "\<forall>r < length rp. length (?M ! r) = length gt \<and>
        (\<forall>g < length gt. overlap_cell (gt ! g) (rp ! r) = Inr (?M ! r ! g))"
    using cell cols(2) by simp
  ultimately show ?thesis using M by blast
qed

lemma calculate_bb_overlap_range:
  "\<exists>M. calculate_bb_overlap rp gt = Inr M \<and> length M = length rp \<and>
     (\<forall>r < length rp. length (M ! r) = length gt \<and>
        (\<forall>g < length gt. 0 \<le> M ! r ! g \<and> M ! r ! g \<le> 1))"
proof -
  from calculate_bb_overlap_cells [of rp gt]
  obtain M where M: "calculate_bb_overlap rp gt = Inr M" "length M = length rp"
    "\<forall>r < length rp. length (M ! r) = length gt \<and>
        (\<forall>g < length gt. overlap_cell (gt ! g) (rp ! r) = Inr (M ! r ! g))"
    by blast
  have "0 \<le> M ! r ! g \<and> M ! r ! g \<le> 1" if "r < length rp" "g < length gt" for r g
  proof -
    from M(3) that have "overlap_cell (gt ! g) (rp ! r) = Inr (M ! r ! g)" by blast
    with overlap_cell_range [of "gt ! g" "rp ! r"] show ?thesis by auto
  qed
  with M show ?thesis by blast
qed



subsection \<open>Facts about the numpy helpers\<close>

lemma where_idx_set: "set (where_idx P xs) = {i. i < length xs \<and> P (xs ! i)}"
  by (auto simp: where_idx_def)

lemma where_idx_distinct: "distinct (where_idx P xs)"
  by (simp add: where_idx_def)

lemma where_idx_sorted: "sorted (where_idx P xs)"
  by (simp add: where_idx_def sorted_wrt_filter)

lemma np_max_eq_Max: "xs \<noteq> [] \<Longrightarrow> np_max xs = Max (set xs)"
  by (cases xs) (simp_all add: Max.set_eq_fold [symmetric])

lemma np_max_in: "xs \<noteq> [] \<Longrightarrow> np_max xs \<in> set xs"
  by (simp add: np_max_eq_Max)

lemma np_max_ge: "x \<in> set xs \<Longrightarrow> x \<le> np_max xs"
  by (cases "xs = []") (simp_all add: np_max_eq_Max)

lemma first_index_less: "\<exists>x \<in> set xs. P x \<Longrightarrow> first_index P xs < length xs"
  by (induction xs) auto

lemma first_index_holds: "\<exists>x \<in> set xs. P x \<Longrightarrow> P (xs ! first_index P xs)"
  by (induction xs) auto

lemma np_argmax_less: "xs \<noteq> [] \<Longrightarrow> np_argmax xs < length xs"
  unfolding np_argmax_def by (rule first_index_less) (use np_max_in in blast)

lemma np_argmax_max: "xs \<noteq> [] \<Longrightarrow> xs ! np_argmax xs = np_max xs"
  unfolding np_argmax_def
  using first_index_holds [of xs "\<lambda>x. x = np_max xs"] np_max_in [of xs] by blast

lemma np_max_single_entry:
  assumes "c < n" "0 \<le> a"
  shows "np_max ((replicate n 0)[c := a]) = a"
proof -
  let ?xs = "(replicate n (0::real))[c := a]"
  have ne: "?xs \<noteq> []" using assms(1) by auto
  have "a \<in> set ?xs" using assms(1) by (simp add: set_update_memI)
  moreover have "\<forall>x \<in> set ?xs. x \<le> a"
    using assms(2) set_update_subset_insert [of "replicate n (0::real)" c a] by auto
  ultimately have "Max (set ?xs) = a" by (intro Max_eqI) auto
  with ne show ?thesis by (simp add: np_max_eq_Max)
qed

lemma first_index_append:
  "\<forall>x \<in> set xs. \<not> P x \<Longrightarrow> first_index P (xs @ ys) = length xs + first_index P ys"
  by (induction xs) auto

lemma replicate_update_split:
  "c < n \<Longrightarrow> (replicate n x)[c := a] = replicate c x @ a # replicate (n - c - 1) x"
  by (simp add: upd_conv_take_nth_drop min_def)

lemma np_argmax_single_entry:
  assumes "c < n" "0 < a"
  shows "np_argmax ((replicate n 0)[c := a]) = c"
proof -
  have "np_max ((replicate n 0)[c := a]) = a"
    using assms by (simp add: np_max_single_entry)
  then have "np_argmax ((replicate n 0)[c := a]) =
      first_index (\<lambda>x. x = a) (replicate c 0 @ a # replicate (n - c - 1) 0)"
    using assms(1) by (simp add: np_argmax_def replicate_update_split)
  also have "\<dots> = c"
    using assms(2) by (subst first_index_append) auto
  finally show ?thesis .
qed

lemma np_max_zeros: "0 < n \<Longrightarrow> np_max (replicate n 0) = 0"
  by (simp add: np_max_eq_Max)

lemma np_argmax_zeros:
  assumes "0 < n"
  shows "np_argmax (replicate n 0) = 0"
proof -
  from assms obtain k where k: "n = Suc k" by (cases n) auto
  have m: "np_max (replicate n 0) = 0" by (rule np_max_zeros [OF assms])
  have "np_argmax (replicate n 0) = first_index (\<lambda>x. x = (0::real)) (replicate n 0)"
    unfolding np_argmax_def m by (rule refl)
  also have "\<dots> = 0" using k by simp
  finally show ?thesis .
qed

text \<open>In-place updates at distinct positions change exactly those positions.\<close>

lemma fold_update_length:
  "length (fold (\<lambda>i xs. xs[i := f i xs]) js xs) = length xs"
  by (induction js arbitrary: xs) simp_all

lemma fold_update_nth:
  assumes "distinct js" "r < length xs"
  shows "fold (\<lambda>i xs. xs[i := f i (xs ! i)]) js xs ! r =
           (if r \<in> set js then f r (xs ! r) else xs ! r)"
  using assms
proof (induction js arbitrary: xs)
  case Nil
  then show ?case by simp
next
  case (Cons j js)
  have len: "r < length (xs[j := f j (xs ! j)])" using Cons.prems by simp
  have d: "distinct js" and nj: "j \<notin> set js" using Cons.prems by auto
  show ?case
  proof (cases "r = j")
    case True
    then show ?thesis using Cons.IH [OF d len] nj Cons.prems(2) by simp
  next
    case False
    then have "xs[j := f j (xs ! j)] ! r = xs ! r" by simp
    then show ?thesis using Cons.IH [OF d len] False by simp
  qed
qed

lemma fold_assign_length:
  "length (fold (\<lambda>(i, t) ts. ts[i := t]) us ts) = length ts"
  by (induction us arbitrary: ts) (simp_all split: prod.splits)

lemma fold_assign_untouched:
  "r \<notin> fst ` set us \<Longrightarrow> fold (\<lambda>(i, t) ts. ts[i := t]) us ts ! r = ts ! r"
  by (induction us arbitrary: ts) (auto split: prod.splits)

lemma fold_assign_touched:
  assumes "distinct js" "length js = length vs" "k < length js"
  shows "fold (\<lambda>(i, t) ts. ts[i := t]) (zip js vs) ts ! (js ! k) =
           (if js ! k < length ts then vs ! k else ts ! (js ! k))"
  using assms
proof (induction js arbitrary: vs ts k)
  case Nil
  then show ?case by simp
next
  case (Cons j js)
  then obtain v vs' where vs: "vs = v # vs'" by (cases vs) auto
  show ?case
  proof (cases k)
    case 0
    have "j \<notin> fst ` set (zip js vs')" using Cons.prems(1) by (auto dest: set_zip_leftD)
    then show ?thesis using 0 vs by (simp add: fold_assign_untouched list_update_beyond)
  next
    case (Suc k')
    have "js ! k' \<noteq> j" using Cons.prems Suc by auto
    then have "ts[j := v] ! (js ! k') = ts ! (js ! k')" by simp
    then show ?thesis using Cons vs Suc by (simp add: fold_assign_length)
  qed
qed

subsection \<open>Facts about the loaders\<close>

lemma num_classes_pos: "0 < PASCAL_VOC_NUM_CLASSES"
  by (simp add: PASCAL_VOC_NUM_CLASSES_def)

lemma class_to_index_less: "class_to_index s = Some c \<Longrightarrow> c < PASCAL_VOC_NUM_CLASSES"
  unfolding class_to_index_def
  by (drule map_of_SomeD, drule set_zip_rightD) simp

lemma load_object_class: "load_object obj = Inr (b, c) \<Longrightarrow> c < PASCAL_VOC_NUM_CLASSES"
  by (auto simp: load_object_def Let_def class_to_index_less split: option.splits)

lemma mapM_err_set:
  "mapM_err f xs = Inr ys \<Longrightarrow> y \<in> set ys \<Longrightarrow> \<exists>x \<in> set xs. f x = Inr y"
proof (induction xs arbitrary: ys)
  case Nil
  then show ?case by simp
next
  case (Cons x xs)
  then show ?case by (auto split: sum.splits)
qed

lemma load_pascal_annotation_shape:
  assumes "load_pascal_annotation img objs = Inr gt"
  shows "length (gt_bb gt) = length objs" "length (gt_classes gt) = length objs"
    "\<forall>c \<in> set (gt_classes gt). c < PASCAL_VOC_NUM_CLASSES"
    "gt_bb_targets gt = map (\<lambda>c. (c, (0, 0, 0, 0))) (gt_classes gt)"
    "gt_max_overlap_class gt = gt_classes gt"
    "gt_img_id gt = img"
proof -
  from assms obtain loaded where l: "mapM_err load_object objs = Inr loaded"
    and gt: "gt = \<lparr> gt_bb = map fst loaded, gt_classes = map snd loaded,
                 gt_overlaps =
                   map (\<lambda>cls. (replicate PASCAL_VOC_NUM_CLASSES 0)[cls := 1]) (map snd loaded),
                 gt_img_id = img,
                 gt_max_overlap_area = map (\<lambda>_. 1) loaded,
                 gt_max_overlap_class = map snd loaded,
                 gt_bb_targets = map (\<lambda>cls. (cls, (0, 0, 0, 0))) (map snd loaded) \<rparr>"
    by (auto simp: load_pascal_annotation_def Let_def split: sum.splits)
  from mapM_err_Inr_nth [OF l] have len: "length loaded = length objs" by simp
  show "length (gt_bb gt) = length objs" "length (gt_classes gt) = length objs"
    using gt len by simp_all
  show "\<forall>c \<in> set (gt_classes gt). c < PASCAL_VOC_NUM_CLASSES"
  proof
    fix c assume "c \<in> set (gt_classes gt)"
    then obtain b where "(b, c) \<in> set loaded" using gt by auto
    from mapM_err_set [OF l this] obtain obj where "load_object obj = Inr (b, c)" by blast
    then show "c < PASCAL_VOC_NUM_CLASSES" by (rule load_object_class)
  qed
  show "gt_bb_targets gt = map (\<lambda>c. (c, (0, 0, 0, 0))) (gt_classes gt)"
    "gt_max_overlap_class gt = gt_classes gt" "gt_img_id gt = img"
    using gt by simp_all
qed

text \<open>
  The proposals of one image, for a ground truth that has at least one box and whose
  classes index the overlap table: below the threshold the target row stays zero.
\<close>

lemma selectivesearch_image_rows:
  assumes wf: "gt_bb gt \<noteq> []" "length (gt_classes gt) = length (gt_bb gt)"
    "\<forall>c \<in> set (gt_classes gt). c < PASCAL_VOC_NUM_CLASSES"
  shows "\<exists>ss. selectivesearch_image thre gt raw = Inr ss \<and>
           ss_bb ss = map ss_reorder raw \<and>
           length (ss_bb_targets ss) = length raw \<and>
           length (ss_max_overlap_area ss) = length raw \<and>
           length (ss_max_overlap_class ss) = length raw \<and>
           ss_gt_classes ss = replicate (length raw) 0 \<and>
           (\<forall>r < length raw. 0 \<le> ss_max_overlap_area ss ! r \<and> ss_max_overlap_area ss ! r \<le> 1) \<and>
           (\<forall>r < length raw. ss_max_overlap_area ss ! r < thre \<longrightarrow>
                ss_bb_targets ss ! r = zero_row) \<and>
           (\<forall>r < length raw. fst (ss_bb_targets ss ! r) = 0 \<or>
                fst (ss_bb_targets ss ! r) \<in> set (gt_classes gt))"
proof -
  define n where "n = PASCAL_VOC_NUM_CLASSES"
  define bb where "bb = map ss_reorder raw"
  define gf where "gf = map as_float (gt_bb gt)"
  have gf_ne: "gf \<noteq> []" using wf(1) by (simp add: gf_def)
  from calculate_bb_overlap_range [of bb gf]
  obtain M where M: "calculate_bb_overlap bb gf = Inr M" and lenM: "length M = length bb"
    and rows: "\<forall>r < length bb. length (M ! r) = length gf \<and>
        (\<forall>g < length gf. 0 \<le> M ! r ! g \<and> M ! r ! g \<le> 1)"
    by blast
  define area where "area = map np_max M"
  define arg where "arg = map np_argmax M"
  define I where "I = where_idx (\<lambda>a. a > 0) area"
  define c where "c = (\<lambda>i. gt_classes gt ! (arg ! i))"
  define ov where "ov = fold (\<lambda>i ov. ov[i := (ov ! i)[c i := area ! i]]) I
                          (replicate (length bb) (replicate n (0::real)))"
  define mo where "mo = map np_max ov"
  define cls where "cls = map np_argmax ov"
  define use where "use = where_idx (\<lambda>m. m \<ge> thre) mo"
  define tg where "tg = fold (\<lambda>(i, t) ts. ts[i := t])
       (zip use (compute_bb_targets (map (\<lambda>i. gt_bb gt ! (arg ! i)) use)
                   (map (\<lambda>i. bb ! i) use) (map (\<lambda>i. cls ! i) use)))
       (replicate (length bb) zero_row)"
  have row_ne: "M ! r \<noteq> []" if "r < length bb" for r
    using rows that gf_ne by (metis length_0_conv)
  have area_rng: "0 \<le> area ! r \<and> area ! r \<le> 1" if "r < length bb" for r
  proof -
    have "np_max (M ! r) \<in> set (M ! r)" using row_ne [OF that] by (rule np_max_in)
    then obtain g where g: "g < length (M ! r)" "M ! r ! g = np_max (M ! r)"
      by (auto simp: in_set_conv_nth)
    from rows that have "length (M ! r) = length gf"
      and "\<forall>g < length gf. 0 \<le> M ! r ! g \<and> M ! r ! g \<le> 1" by auto
    with g have "0 \<le> np_max (M ! r) \<and> np_max (M ! r) \<le> 1" by metis
    then show ?thesis using that lenM by (simp add: area_def)
  qed
  have arg_lt: "arg ! r < length (gt_bb gt)" if "r < length bb" for r
  proof -
    have "np_argmax (M ! r) < length (M ! r)" using row_ne [OF that] by (rule np_argmax_less)
    then show ?thesis using rows that lenM by (simp add: arg_def gf_def)
  qed
  have c_lt: "c r < n" if "r < length bb" for r
    using arg_lt [OF that] wf(2,3) by (simp add: c_def n_def)
  have I_lt: "i < length bb" if "i \<in> set I" for i
    using that lenM by (simp add: I_def where_idx_set area_def)
  have noerr: "\<not> list_ex (\<lambda>i. arg ! i \<ge> length (gt_classes gt) \<or> c i \<ge> n) I"
    using I_lt arg_lt c_lt wf(2) by (auto simp: list_ex_iff not_le)
  have eq: "selectivesearch_image thre gt raw =
        Inr \<lparr> ss_bb = bb, ss_gt_classes = replicate (length bb) 0, ss_gt_overlaps = ov,
              ss_max_overlap_area = area, ss_max_overlap_class = cls, ss_bb_targets = tg \<rparr>"
    using M noerr wf(1)
    unfolding selectivesearch_image_def tg_def use_def cls_def mo_def ov_def c_def I_def
      arg_def area_def gf_def bb_def n_def
    by (simp add: Let_def)
  have len_ov: "length ov = length bb"
    unfolding ov_def by (rule trans [OF fold_update_length]) simp
  have n_pos: "0 < n" by (simp add: n_def num_classes_pos)
  have ov_row: "ov ! r = (if r \<in> set I then (replicate n 0)[c r := area ! r]
                          else replicate n 0)" if "r < length bb" for r
    unfolding ov_def
    using fold_update_nth [of I r "replicate (length bb) (replicate n (0::real))"
        "\<lambda>i row. row[c i := area ! i]"] that
    by (simp add: I_def where_idx_distinct)
  have in_I: "r \<in> set I \<longleftrightarrow> area ! r > 0" if "r < length bb" for r
    using that lenM by (simp add: I_def where_idx_set area_def)
  have mo_eq: "mo ! r = area ! r" if "r < length bb" for r
  proof -
    have "np_max (ov ! r) = area ! r"
      using ov_row [OF that] in_I [OF that] n_pos c_lt [OF that] area_rng [OF that]
      by (auto simp: np_max_single_entry np_max_zeros)
    then show ?thesis using that len_ov by (simp add: mo_def)
  qed
  have cls_eq: "cls ! r = 0 \<or> cls ! r \<in> set (gt_classes gt)" if "r < length bb" for r
  proof (cases "r \<in> set I")
    case True
    then have "np_argmax (ov ! r) = c r"
      using ov_row [OF that] in_I [OF that] c_lt [OF that]
      by (simp add: np_argmax_single_entry)
    moreover have "c r \<in> set (gt_classes gt)"
      using arg_lt [OF that] wf(2) by (simp add: c_def)
    ultimately show ?thesis using that len_ov by (simp add: cls_def)
  next
    case False
    then have "np_argmax (ov ! r) = 0"
      using ov_row [OF that] n_pos by (simp add: np_argmax_zeros)
    then show ?thesis using that len_ov by (simp add: cls_def)
  qed
  have len_tg: "length tg = length bb"
    unfolding tg_def by (simp add: fold_assign_length)
  have below: "tg ! r = zero_row" if "r < length bb" "area ! r < thre" for r
  proof -
    have "r \<notin> set use"
      using that mo_eq [OF that(1)] by (simp add: use_def where_idx_set)
    then have "r \<notin> fst ` set (zip use (compute_bb_targets (map (\<lambda>i. gt_bb gt ! (arg ! i)) use)
                   (map (\<lambda>i. bb ! i) use) (map (\<lambda>i. cls ! i) use)))"
      by (auto dest: set_zip_leftD)
    then have "tg ! r = replicate (length bb) zero_row ! r"
      unfolding tg_def by (rule fold_assign_untouched)
    then show ?thesis using that(1) by simp
  qed
  have tg_cls: "fst (tg ! r) = 0 \<or> fst (tg ! r) \<in> set (gt_classes gt)"
    if r: "r < length bb" for r
  proof (cases "r \<in> set use")
    case False
    then have "r \<notin> fst ` set (zip use (compute_bb_targets (map (\<lambda>i. gt_bb gt ! (arg ! i)) use)
                   (map (\<lambda>i. bb ! i) use) (map (\<lambda>i. cls ! i) use)))"
      by (auto dest: set_zip_leftD)
    then have "tg ! r = replicate (length bb) zero_row ! r"
      unfolding tg_def by (rule fold_assign_untouched)
    then show ?thesis using r by (simp add: zero_row_def)
  next
    case True
    then obtain k where k: "k < length use" "use ! k = r" by (auto simp: in_set_conv_nth)
    define bbt where "bbt = compute_bb_targets (map (\<lambda>i. gt_bb gt ! (arg ! i)) use)
                   (map (\<lambda>i. bb ! i) use) (map (\<lambda>i. cls ! i) use)"
    have lb: "length use = length bbt" by (simp add: bbt_def compute_bb_targets_def)
    have du: "distinct use" by (simp add: use_def where_idx_distinct)
    have "tg ! (use ! k) = bbt ! k"
      unfolding tg_def bbt_def [symmetric]
      using fold_assign_touched [OF du lb k(1), of "replicate (length bb) zero_row"] k(2) r
      by simp
    moreover have "bbt ! k = bb_target_row (gt_bb gt ! (arg ! (use ! k))) (bb ! (use ! k))
                                (cls ! (use ! k))"
      using k(1) by (simp add: bbt_def compute_bb_targets_def)
    then have "fst (bbt ! k) = cls ! r"
      unfolding k(2) by (simp add: bb_target_row_def Let_def)
    ultimately show ?thesis using cls_eq [OF r] k(2) by simp
  qed
  show ?thesis
    using eq len_tg lenM len_ov area_rng below tg_cls
    by (simp add: bb_def area_def cls_def)
qed



text \<open>
  Claim C7, as stated: the overlap of the proposal \<open>(12, 12, 48, 48)\<close> with the ground-truth
  box \<open>(10, 10, 50, 50)\<close> is about 0.84.  The formula gives \<open>37 * 37 / (41 * 41)\<close>, which is
  \<open>1369 / 1681\<close>, about 0.8144: it differs from 0.84 by more than 0.02.
\<close>

theorem scenario_overlap_is_not_084:
  "calculate_bb_overlap [(12, 12, 48, 48)] [(10, 10, 50, 50)] = Inr [[1369 / 1681]] \<and>
   \<bar>1369 / 1681 - 84 / 100\<bar> > (2 / 100 :: real)"
  by (simp add: calculate_bb_overlap_def overlap_cell_def inter_iw_def inter_ih_def
      union_ua_def gt_box_area_def py_float_div_def)

text \<open>
  Claim C7, amended.  For the annotated object \<open>bird\<close> (class 3) with box
  \<open>(10, 10, 50, 50)\<close> and the single proposal \<open>(12, 12, 48, 48)\<close>, the overlap engine returns
  exactly \<open>1369 / 1681\<close> (about 0.814, between 0.81 and 0.82); the proposal is assigned
  class 3, also as the class of its regression target, and its overlap is at least the
  foreground threshold 0.5.
\<close>

theorem scenario_overlap_and_class:
  "load_pascal_annotation ''000001''
      [\<lparr> obj_xmin = 11, obj_ymin = 11, obj_xmax = 51, obj_ymax = 51, obj_name = ''bird'' \<rparr>]
     = Inr \<lparr> gt_bb = [(10, 10, 50, 50)], gt_classes = [3],
             gt_overlaps = [(replicate 21 0)[3 := 1]], gt_img_id = ''000001'',
             gt_max_overlap_area = [1], gt_max_overlap_class = [3],
             gt_bb_targets = [(3, (0, 0, 0, 0))] \<rparr> \<and>
   calculate_bb_overlap [(12, 12, 48, 48)] [(10, 10, 50, 50)] = Inr [[1369 / 1681]] \<and>
   (81 / 100 :: real) < 1369 / 1681 \<and> (1369 / 1681 :: real) < 82 / 100 \<and>
   FRCN_FG_IOU_THRE \<le> 1369 / 1681 \<and>
   (\<exists>ss. selectivesearch_image FRCN_IOU_THRE
            \<lparr> gt_bb = [(10, 10, 50, 50)], gt_classes = [3],
              gt_overlaps = [(replicate 21 0)[3 := 1]], gt_img_id = ''000001'',
              gt_max_overlap_area = [1], gt_max_overlap_class = [3],
              gt_bb_targets = [(3, (0, 0, 0, 0))] \<rparr>
            [(13, 13, 49, 49)] = Inr ss \<and>
         ss_bb ss = [(12, 12, 48, 48)] \<and>
         ss_max_overlap_area ss = [1369 / 1681] \<and>
         ss_max_overlap_class ss = [3] \<and>
         map fst (ss_bb_targets ss) = [3])"
proof -
  have c: "class_to_index ''bird'' = Some 3"
    by (simp add: class_to_index_def PASCAL_VOC_CLASSES_def PASCAL_VOC_NUM_CLASSES_def upt_rec)
  have ov: "calculate_bb_overlap [(12, 12, 48, 48)] [(10, 10, 50, 50)] = Inr [[1369 / 1681]]"
    by (simp add: calculate_bb_overlap_def overlap_cell_def inter_iw_def inter_ih_def
        union_ua_def gt_box_area_def py_float_div_def)
  have am: "np_argmax [1369 / 1681] = 0"
    by (simp add: np_argmax_def)
  show ?thesis
    by (simp add: load_pascal_annotation_def load_object_def c selectivesearch_image_def
        as_float_def ov am Let_def where_idx_def np_argmax_single_entry np_max_single_entry
        PASCAL_VOC_NUM_CLASSES_def compute_bb_targets_def bb_target_row_def zero_row_def
        FRCN_FG_IOU_THRE_def FRCN_IOU_THRE_def)
qed

subsection \<open>Facts about the sampler\<close>

lemma py_int_nonneg: "0 \<le> x \<Longrightarrow> py_int x = \<lfloor>x\<rfloor>"
  by (simp add: py_int_def)

lemma fg_count_bounds:
  assumes "0 \<le> fq"
  shows "0 \<le> py_int (min fq (real n))" "py_int (min fq (real n)) \<le> int n"
    "fq \<le> real_of_int tq \<Longrightarrow> py_int (min fq (real n)) \<le> tq"
proof -
  have m: "0 \<le> min fq (real n)" using assms by simp
  then have eq: "py_int (min fq (real n)) = \<lfloor>min fq (real n)\<rfloor>" by (rule py_int_nonneg)
  show "0 \<le> py_int (min fq (real n))" using m eq by simp
  have "\<lfloor>min fq (real n)\<rfloor> \<le> \<lfloor>real n\<rfloor>" by (rule floor_mono) simp
  then show "py_int (min fq (real n)) \<le> int n" using eq by simp
  assume "fq \<le> real_of_int tq"
  then have "min fq (real n) \<le> real_of_int tq" by simp
  then have "\<lfloor>min fq (real n)\<rfloor> \<le> \<lfloor>real_of_int tq\<rfloor>" by (rule floor_mono)
  then show "py_int (min fq (real n)) \<le> tq" using eq by simp
qed

text \<open>Either way of selecting \<open>k\<close> regions from a pool yields \<open>k\<close> different members of it.\<close>

lemma select_from_pool:
  assumes "valid_draw draw" "distinct pool" "0 \<le> k" "k \<le> int (length pool)"
  shows "\<exists>sel. (if length pool > 0 then
                  (if rnd then np_random_choice draw pool k else index_range pool k)
                else Inr pool) = Inr sel \<and>
           int (length sel) = k \<and> distinct sel \<and> set sel \<subseteq> set pool \<and>
           (\<not> rnd \<longrightarrow> sel = take (nat k) pool)"
proof (cases "length pool > 0")
  case False
  then show ?thesis using assms by simp
next
  case True
  show ?thesis
  proof (cases rnd)
    case False
    have "set (take (nat k) pool) \<subseteq> set pool" by (rule set_take_subset)
    then show ?thesis using True False assms by (simp add: index_range_def)
  next
    case rnd: True
    have "nat k \<le> length pool" using assms by simp
    with assms(1) obtain ps where ps: "length ps = nat k" "distinct ps"
      "set ps \<subseteq> {..<length pool}" "draw pool (nat k) = map (\<lambda>p. pool ! p) ps"
      unfolding valid_draw_def by blast
    have "inj_on (\<lambda>p. pool ! p) (set ps)"
    proof (rule inj_onI)
      fix x y assume xy: "x \<in> set ps" "y \<in> set ps" "pool ! x = pool ! y"
      then have "x < length pool" "y < length pool" using ps(3) by auto
      then show "x = y" using assms(2) xy(3) by (simp add: nth_eq_iff_index_eq)
    qed
    then have d: "distinct (draw pool (nat k))" using ps(2,4) by (simp add: distinct_map)
    have s: "set (draw pool (nat k)) \<subseteq> set pool" using ps(3,4) by auto
    have l: "int (length (draw pool (nat k))) = k" using ps(1,4) assms(3) by simp
    show ?thesis using True rnd assms d s l by (simp add: np_random_choice_def)
  qed
qed

lemma expand_row_total:
  "fst t < ncls \<Longrightarrow> \<exists>y. expand_row ncls t = Inr y"
  by (simp add: expand_row_def Let_def)

lemma get_bbox_regression_labels_total:
  assumes "\<forall>t \<in> set rows. fst t < ncls"
  shows "\<exists>ts ws. get_bbox_regression_labels rows ncls = Inr (ts, ws) \<and>
           length ts = length rows \<and> length ws = length rows"
proof -
  have "\<And>t. t \<in> set rows \<Longrightarrow> \<exists>y. expand_row ncls t = Inr y"
    using assms expand_row_total by blast
  from mapM_err_total [of rows "expand_row ncls", OF this]
  obtain ys where "mapM_err (expand_row ncls) rows = Inr ys" "length ys = length rows"
    by blast
  then show ?thesis by (simp add: get_bbox_regression_labels_def)
qed

lemma clamp_from_append:
  "clamp_from (xs @ ys) (int (length xs)) = xs @ replicate (length ys) 0"
  by (simp add: clamp_from_def slice_start_def Let_def)

lemma sample_fg_bg_rois_result:
  assumes "valid_draw draw" "consistent_roidb ncls d" "0 \<le> fq" "fq \<le> real_of_int tq"
  shows "\<exists>s fg_sel bg_sel. sample_fg_bg_rois d fq tq ncls rnd draw = Inr s \<and>
     int (length fg_sel) = py_int (min fq (real (length (fg_pool d)))) \<and>
     int (length bg_sel) = min (tq - int (length fg_sel)) (int (length (bg_pool d))) \<and>
     distinct fg_sel \<and> set fg_sel \<subseteq> set (fg_pool d) \<and>
     distinct bg_sel \<and> set bg_sel \<subseteq> set (bg_pool d) \<and>
     (\<not> rnd \<longrightarrow> fg_sel = take (length fg_sel) (fg_pool d) \<and>
                bg_sel = take (length bg_sel) (bg_pool d)) \<and>
     s_labels s = map (\<lambda>i. max_overlap_class d ! i) fg_sel @ replicate (length bg_sel) 0 \<and>
     s_overlaps s = map (\<lambda>i. max_overlap_area d ! i) (fg_sel @ bg_sel) \<and>
     s_rois s = map (\<lambda>i. bb d ! i) (fg_sel @ bg_sel) \<and>
     length (s_bbox_targets s) = length (fg_sel @ bg_sel) \<and>
     length (s_bbox_loss_weights s) = length (fg_sel @ bg_sel)"
proof -
  define fg where "fg = where_idx (\<lambda>ov. ov \<ge> FRCN_FG_IOU_THRE) (max_overlap_area d)"
  define bg where "bg = where_idx (\<lambda>ov. ov < FRCN_BG_IOU_THRE_HIGH
                                       \<and> ov \<ge> FRCN_BG_IOU_THRE_LOW) (max_overlap_area d)"
  define kf where "kf = py_int (min fq (real (length fg)))"
  define kb where "kb = min (tq - kf) (int (length bg))"
  have kf: "0 \<le> kf" "kf \<le> int (length fg)" "kf \<le> tq"
    using fg_count_bounds [OF assms(3)] assms(4) by (simp_all add: kf_def)
  have kb: "0 \<le> kb" "kb \<le> int (length bg)" using kf(3) by (simp_all add: kb_def)
  from select_from_pool [OF assms(1) _ kf(1,2), of rnd]
  obtain fg_sel where fs:
    "(if length fg > 0 then (if rnd then np_random_choice draw fg kf else index_range fg kf)
      else Inr fg) = Inr fg_sel"
    "int (length fg_sel) = kf" "distinct fg_sel" "set fg_sel \<subseteq> set fg"
    "\<not> rnd \<longrightarrow> fg_sel = take (nat kf) fg"
    by (auto simp: fg_def where_idx_distinct)
  from select_from_pool [OF assms(1) _ kb, of rnd]
  obtain bg_sel where bs:
    "(if length bg > 0 then (if rnd then np_random_choice draw bg kb else index_range bg kb)
      else Inr bg) = Inr bg_sel"
    "int (length bg_sel) = kb" "distinct bg_sel" "set bg_sel \<subseteq> set bg"
    "\<not> rnd \<longrightarrow> bg_sel = take (nat kb) bg"
    by (auto simp: bg_def where_idx_distinct)
  have rng: "i < length (max_overlap_area d)" if "i \<in> set (fg_sel @ bg_sel)" for i
    using that fs(4) bs(4) by (auto simp: fg_def bg_def where_idx_set)
  have lens: "length (max_overlap_class d) = length (max_overlap_area d)"
    "length (bb d) = length (max_overlap_area d)"
    "length (bb_targets d) = length (max_overlap_area d)"
    and cls: "\<forall>t \<in> set (bb_targets d). fst t < ncls"
    using assms(2) by (simp_all add: consistent_roidb_def list_all_iff)
  have ok1: "\<not> list_ex (\<lambda>i. i \<ge> length (max_overlap_class d)) (fg_sel @ bg_sel)"
    and ok2: "\<not> list_ex (\<lambda>i. i \<ge> length (bb d)) (fg_sel @ bg_sel)"
    and ok3: "\<not> list_ex (\<lambda>i. i \<ge> length (bb_targets d)) (fg_sel @ bg_sel)"
    using rng lens unfolding list_ex_iff by (metis not_le)+
  have "\<forall>t \<in> set (map (\<lambda>i. bb_targets d ! i) (fg_sel @ bg_sel)). fst t < ncls"
    using rng lens(3) cls by (metis (no_types, lifting) imageE list.set_map nth_mem)
  from get_bbox_regression_labels_total [OF this]
  obtain ts ws where tw:
    "get_bbox_regression_labels (map (\<lambda>i. bb_targets d ! i) (fg_sel @ bg_sel)) ncls
       = Inr (ts, ws)"
    "length ts = length (fg_sel @ bg_sel)" "length ws = length (fg_sel @ bg_sel)"
    by auto
  have cl: "clamp_from (map (\<lambda>i. max_overlap_class d ! i) (fg_sel @ bg_sel)) kf =
      map (\<lambda>i. max_overlap_class d ! i) fg_sel @ replicate (length bg_sel) 0"
    using clamp_from_append [of "map (\<lambda>i. max_overlap_class d ! i) fg_sel"
        "map (\<lambda>i. max_overlap_class d ! i) bg_sel"] fs(2)
    by simp
  let ?s = "\<lparr> s_labels = map (\<lambda>i. max_overlap_class d ! i) fg_sel @ replicate (length bg_sel) 0,
              s_overlaps = map (\<lambda>i. max_overlap_area d ! i) (fg_sel @ bg_sel),
              s_rois = map (\<lambda>i. bb d ! i) (fg_sel @ bg_sel),
              s_bbox_targets = ts, s_bbox_loss_weights = ws \<rparr>"
  have eq: "sample_fg_bg_rois d fq tq ncls rnd draw = Inr ?s"
    unfolding sample_fg_bg_rois_def Let_def
    using fs(1) bs(1) ok1 ok2 ok3 tw(1) cl
    unfolding fg_def bg_def kf_def kb_def
    by simp
  have nk: "nat kf = length fg_sel" "nat kb = length bg_sel" using fs(2) bs(2) by auto
  show ?thesis
    apply (rule exI [of _ ?s], rule exI [of _ fg_sel], rule exI [of _ bg_sel])
    using eq fs bs tw(2,3) nk
    by (simp add: fg_pool_def bg_pool_def fg_def bg_def kf_def kb_def)
qed

subsection \<open>The sampler on the example\<close>

lemma first_k_valid: "valid_draw first_k"
  unfolding valid_draw_def
proof (intro allI impI)
  fix a :: "nat list" and k
  assume k: "k \<le> length a"
  then have "first_k a k = map (\<lambda>p. a ! p) [0..<k]"
    by (auto simp: first_k_def list_eq_iff_nth_eq)
  then show "\<exists>ps. length ps = k \<and> distinct ps \<and> set ps \<subseteq> {..<length a} \<and>
                 first_k a k = map (\<lambda>p. a ! p) ps"
    using k by (intro exI [of _ "[0..<k]"]) auto
qed

lemma where_idx_4:
  "where_idx P [a, b, c, d] =
     (if P a then [0] else []) @ (if P b then [1] else []) @
     (if P c then [2] else []) @ (if P d then [3] else [])"
  by (simp add: where_idx_def upt_rec)

lemma example_pools: "fg_pool example_roidb = [0, 1, 2]" "bg_pool example_roidb = [3]"
  by (simp_all add: fg_pool_def bg_pool_def example_roidb_def where_idx_4
      FRCN_FG_IOU_THRE_def FRCN_BG_IOU_THRE_HIGH_def FRCN_BG_IOU_THRE_LOW_def)

lemma example_consistent: "consistent_roidb 21 example_roidb"
  by (simp add: consistent_roidb_def example_roidb_def)

text \<open>
  Claim C4, as stated, fails in two ways on the example, with its three foreground
  candidates.  With the foreground quota 2.5, which the constructor passes for 10 regions
  per image, the sampler takes 2 foreground regions, not \<open>min(2.5, 3)\<close>.  With a foreground
  quota of 2 and a total quota of 1 it returns 2 regions, more than the total quota.
\<close>

theorem sampler_counts_counterexample:
  "map_sum id (\<lambda>s. s_overlaps s)
     (sample_fg_bg_rois example_roidb (5 / 2) 10 21 False first_k)
     = Inr [1, 1369 / 1681, 441 / 2921] \<and>
   length (fg_pool example_roidb) = 3 \<and>
   min (5 / 2) (real (length (fg_pool example_roidb))) \<noteq> 2 \<and>
   map_sum id (\<lambda>s. s_overlaps s)
     (sample_fg_bg_rois example_roidb 2 1 21 False first_k)
     = Inr [1, 1369 / 1681] \<and>
   \<not> length [1, 1369 / 1681 :: real] \<le> 1"
  by (simp add: example_pools)
    (simp add: sample_fg_bg_rois_def example_roidb_def Let_def where_idx_4
      FRCN_FG_IOU_THRE_def FRCN_BG_IOU_THRE_HIGH_def FRCN_BG_IOU_THRE_LOW_def py_int_def
      index_range_def clamp_from_def slice_start_def get_bbox_regression_labels_def
      expand_row_def)

text \<open>
  Claim C4, amended.  For quotas with \<open>0 \<le> fg_quota \<le> total_quota\<close> and any region set
  whose arrays are consistent, the sampler returns a sample: it takes
  \<open>int(min(fg_quota, |foreground pool|))\<close> regions of the foreground pool, which is
  \<open>min(fg_quota, |foreground pool|)\<close> when the quota is a whole number, and
  \<open>min(total_quota - fg_taken, |background pool|)\<close> regions of the background pool, all
  different; the number of regions returned never exceeds \<open>total_quota\<close>, and a short pool
  gives a shorter sample.
\<close>

theorem sampler_counts:
  assumes "valid_draw draw" "consistent_roidb ncls d" "0 \<le> fq" "fq \<le> real_of_int tq"
  shows "\<exists>s fg_sel bg_sel. sample_fg_bg_rois d fq tq ncls rnd draw = Inr s \<and>
     int (length fg_sel) = py_int (min fq (real (length (fg_pool d)))) \<and>
     (fq = real_of_int \<lfloor>fq\<rfloor> \<longrightarrow>
        real (length fg_sel) = min fq (real (length (fg_pool d)))) \<and>
     int (length bg_sel) = min (tq - int (length fg_sel)) (int (length (bg_pool d))) \<and>
     distinct fg_sel \<and> set fg_sel \<subseteq> set (fg_pool d) \<and>
     distinct bg_sel \<and> set bg_sel \<subseteq> set (bg_pool d) \<and>
     s_rois s = map (\<lambda>i. bb d ! i) (fg_sel @ bg_sel) \<and>
     s_overlaps s = map (\<lambda>i. max_overlap_area d ! i) (fg_sel @ bg_sel) \<and>
     length (s_labels s) = length fg_sel + length bg_sel \<and>
     length (s_bbox_targets s) = length fg_sel + length bg_sel \<and>
     int (length (s_rois s)) \<le> tq"
proof -
  from sample_fg_bg_rois_result [OF assms, of rnd]
  obtain s fg_sel bg_sel where r: "sample_fg_bg_rois d fq tq ncls rnd draw = Inr s"
    "int (length fg_sel) = py_int (min fq (real (length (fg_pool d))))"
    "int (length bg_sel) = min (tq - int (length fg_sel)) (int (length (bg_pool d)))"
    "distinct fg_sel" "set fg_sel \<subseteq> set (fg_pool d)"
    "distinct bg_sel" "set bg_sel \<subseteq> set (bg_pool d)"
    "s_labels s = map (\<lambda>i. max_overlap_class d ! i) fg_sel @ replicate (length bg_sel) 0"
    "s_overlaps s = map (\<lambda>i. max_overlap_area d ! i) (fg_sel @ bg_sel)"
    "s_rois s = map (\<lambda>i. bb d ! i) (fg_sel @ bg_sel)"
    "length (s_bbox_targets s) = length (fg_sel @ bg_sel)"
    by blast
  have whole: "real (length fg_sel) = min fq (real (length (fg_pool d)))"
    if "fq = real_of_int \<lfloor>fq\<rfloor>"
  proof -
    have "0 \<le> min fq (real (length (fg_pool d)))" using assms(3) by simp
    then have "int (length fg_sel) = \<lfloor>min fq (real (length (fg_pool d)))\<rfloor>"
      using r(2) by (simp add: py_int_nonneg)
    also have "\<dots> = min \<lfloor>fq\<rfloor> (int (length (fg_pool d)))"
      by (simp add: min_def floor_le_iff le_floor_iff) linarith
    finally have "real_of_int (int (length fg_sel)) =
        real_of_int (min \<lfloor>fq\<rfloor> (int (length (fg_pool d))))" by simp
    then show ?thesis using that by (simp add: min_def split: if_splits)
  qed
  have total: "int (length (s_rois s)) \<le> tq" using r(3,10) by simp
  show ?thesis
    apply (rule exI [of _ s], rule exI [of _ fg_sel], rule exI [of _ bg_sel])
    using r whole total by simp
qed

theorem sampler_counts_witness:
  "valid_draw first_k \<and> consistent_roidb 21 example_roidb \<and>
   (0 :: real) \<le> 16 \<and> (16 :: real) \<le> real_of_int 64 \<and>
   (\<exists>s. sample_fg_bg_rois example_roidb 16 64 21 False first_k = Inr s \<and>
        length (s_rois s) = 4 \<and> length (s_labels s) = 4)"
proof -
  have h: "(0 :: real) \<le> 16" "(16 :: real) \<le> real_of_int 64" by simp_all
  from sampler_counts [OF first_k_valid example_consistent h, of False]
  obtain s fg_sel bg_sel where
    s: "sample_fg_bg_rois example_roidb 16 64 21 False first_k = Inr s"
    and f: "int (length fg_sel) = py_int (min 16 (real (length (fg_pool example_roidb))))"
    and b: "int (length bg_sel) =
              min (64 - int (length fg_sel)) (int (length (bg_pool example_roidb)))"
    and l: "s_rois s = map (\<lambda>i. bb example_roidb ! i) (fg_sel @ bg_sel)"
      "length (s_labels s) = length fg_sel + length bg_sel"
    by blast
  from f have "length fg_sel = 3" by (simp add: example_pools py_int_def)
  moreover from this b have "length bg_sel = 1" by (simp add: example_pools)
  ultimately have "length (s_rois s) = 4 \<and> length (s_labels s) = 4" using l by simp
  with s first_k_valid example_consistent h show ?thesis by blast
qed

text \<open>
  Claim C5.  For quotas with \<open>0 \<le> fg_quota \<le> total_quota\<close> and any consistent region set,
  the sampler returns the regions drawn from the foreground pool followed by those drawn
  from the background pool, and the label returned for every region drawn from the
  background pool is 0, whatever class \<open>max_overlap_class\<close> records for it.
\<close>

theorem background_labels_are_zero:
  assumes "valid_draw draw" "consistent_roidb ncls d" "0 \<le> fq" "fq \<le> real_of_int tq"
  shows "\<exists>s fg_sel bg_sel. sample_fg_bg_rois d fq tq ncls rnd draw = Inr s \<and>
     set fg_sel \<subseteq> set (fg_pool d) \<and> set bg_sel \<subseteq> set (bg_pool d) \<and>
     int (length fg_sel) = py_int (min fq (real (length (fg_pool d)))) \<and>
     int (length bg_sel) = min (tq - int (length fg_sel)) (int (length (bg_pool d))) \<and>
     s_rois s = map (\<lambda>i. bb d ! i) (fg_sel @ bg_sel) \<and>
     s_overlaps s = map (\<lambda>i. max_overlap_area d ! i) (fg_sel @ bg_sel) \<and>
     length (s_labels s) = length (fg_sel @ bg_sel) \<and>
     (\<forall>j < length bg_sel. s_labels s ! (length fg_sel + j) = 0)"
proof -
  from sample_fg_bg_rois_result [OF assms, of rnd]
  obtain s fg_sel bg_sel where r: "sample_fg_bg_rois d fq tq ncls rnd draw = Inr s"
    "int (length fg_sel) = py_int (min fq (real (length (fg_pool d))))"
    "int (length bg_sel) = min (tq - int (length fg_sel)) (int (length (bg_pool d)))"
    "set fg_sel \<subseteq> set (fg_pool d)" "set bg_sel \<subseteq> set (bg_pool d)"
    "s_labels s = map (\<lambda>i. max_overlap_class d ! i) fg_sel @ replicate (length bg_sel) 0"
    "s_overlaps s = map (\<lambda>i. max_overlap_area d ! i) (fg_sel @ bg_sel)"
    "s_rois s = map (\<lambda>i. bb d ! i) (fg_sel @ bg_sel)"
    by blast
  have z: "\<forall>j < length bg_sel. s_labels s ! (length fg_sel + j) = 0"
    using r(6) by (simp add: nth_append)
  have l: "length (s_labels s) = length (fg_sel @ bg_sel)" using r(6) by simp
  show ?thesis
    apply (rule exI [of _ s], rule exI [of _ fg_sel], rule exI [of _ bg_sel])
    using r(1-5,7,8) z l by simp
qed

theorem background_labels_are_zero_witness:
  "valid_draw first_k \<and> consistent_roidb 21 example_roidb \<and>
   (0 :: real) \<le> 16 \<and> (16 :: real) \<le> real_of_int 64 \<and>
   bg_pool example_roidb = [3] \<and> max_overlap_class example_roidb ! 3 = 3 \<and>
   (\<exists>s. sample_fg_bg_rois example_roidb 16 64 21 True first_k = Inr s \<and>
        s_overlaps s ! 3 = 441 / 2921 \<and> s_labels s ! 3 = 0)"
proof -
  have h: "(0 :: real) \<le> 16" "(16 :: real) \<le> real_of_int 64" by simp_all
  from background_labels_are_zero [OF first_k_valid example_consistent h, of True]
  obtain s fg_sel bg_sel where
    s: "sample_fg_bg_rois example_roidb 16 64 21 True first_k = Inr s"
    and bsub: "set bg_sel \<subseteq> set (bg_pool example_roidb)"
    and f: "int (length fg_sel) = py_int (min 16 (real (length (fg_pool example_roidb))))"
    and b: "int (length bg_sel) =
              min (64 - int (length fg_sel)) (int (length (bg_pool example_roidb)))"
    and ov: "s_overlaps s = map (\<lambda>i. max_overlap_area example_roidb ! i) (fg_sel @ bg_sel)"
    and z: "\<forall>j < length bg_sel. s_labels s ! (length fg_sel + j) = 0"
    by blast
  from f have lf: "length fg_sel = 3" by (simp add: example_pools py_int_def)
  from lf b have lb: "length bg_sel = 1" by (simp add: example_pools)
  from lb obtain x where x: "bg_sel = [x]" by (cases bg_sel) auto
  with bsub have x3: "x = 3" by (simp add: example_pools)
  from z lf lb have "s_labels s ! 3 = 0" by simp
  moreover have "s_overlaps s ! 3 = 441 / 2921"
    using ov lf x x3 by (simp add: nth_append example_roidb_def)
  moreover have "max_overlap_class example_roidb ! 3 = 3"
    by (simp add: example_roidb_def)
  ultimately show ?thesis
    using s first_k_valid example_consistent h example_pools(2) by blast
qed

subsection \<open>Facts about the constructor and the iterator\<close>

lemma foldM_err_invariant:
  assumes "P s" and "\<And>x s. x \<in> set xs \<Longrightarrow> P s \<Longrightarrow> \<exists>s'. f x s = Inr s' \<and> P s'"
  shows "\<exists>s'. foldM_err f xs s = Inr s' \<and> P s'"
  using assms
proof (induction xs arbitrary: s)
  case Nil
  then show ?case by simp
next
  case (Cons x xs)
  from Cons.prems obtain s1 where s1: "f x s = Inr s1" "P s1" by (meson list.set_intros(1))
  have "\<exists>s'. foldM_err f xs s1 = Inr s' \<and> P s'"
    by (rule Cons.IH [OF s1(2)]) (use Cons.prems(2) in auto)
  then show ?case using s1(1) by simp
qed

lemma run_generator_all_ok:
  "(\<And>b. b \<in> set bs \<Longrightarrow> \<exists>y. step b = Inr y) \<Longrightarrow>
     \<exists>ys. run_generator step bs = (ys, None) \<and> length ys = length bs"
proof (induction bs)
  case Nil
  then show ?case by simp
next
  case (Cons b bs)
  from Cons.prems obtain y where y: "step b = Inr y" by (meson list.set_intros(1))
  from Cons obtain ys where "run_generator step bs = (ys, None)" "length ys = length bs"
    by (meson list.set_intros(2))
  with y show ?case by simp
qed

lemma run_generator_all_fail:
  assumes "\<And>b. \<exists>e. step b = Inl e"
  shows "fst (run_generator step bs) = []" "bs \<noteq> [] \<Longrightarrow> snd (run_generator step bs) \<noteq> None"
proof -
  show "fst (run_generator step bs) = []"
  proof (cases bs)
    case Nil
    then show ?thesis by simp
  next
    case (Cons b bs')
    from assms obtain e where "step b = Inl e" by blast
    then show ?thesis using Cons by simp
  qed
  assume "bs \<noteq> []"
  then obtain b bs' where bs: "bs = b # bs'" by (cases bs) auto
  from assms obtain e where "step b = Inl e" by blast
  then show "snd (run_generator step bs) \<noteq> None" using bs by simp
qed

lemma select_output_unsupported:
  "ot \<notin> {0, 1, 2} \<Longrightarrow> select_output ot bl = Inl ValueError"
  by (simp add: select_output_def)

lemma select_output_supported:
  "ot \<in> {0, 1, 2} \<Longrightarrow> \<exists>y. select_output ot bl = Inr y"
  by (auto simp: select_output_def)

lemma make_batch_unsupported:
  "output_type self \<notin> {0, 1, 2} \<Longrightarrow> \<exists>e. make_batch self ev g idx b = Inl e"
  unfolding make_batch_def Let_def
  by (auto simp: select_output_unsupported split: sum.splits)

text \<open>The loaders and the builder do not read \<open>output_type\<close>.\<close>

lemma groundtruth_output_type:
  "load_pascal_roi_groundtruth (self \<lparr> output_type := k \<rparr>) ev =
     load_pascal_roi_groundtruth self ev"
  by (simp add: load_pascal_roi_groundtruth_def)

lemma selectivesearch_output_type:
  "load_pascal_roi_selectivesearch (self \<lparr> output_type := k \<rparr>) ev gts =
     load_pascal_roi_selectivesearch self ev gts"
  by (simp add: load_pascal_roi_selectivesearch_def Let_def cong: option.case_cong if_cong)

lemma combine_step_output_type:
  "combine_step (self \<lparr> output_type := k \<rparr>) ev gts sss = combine_step self ev gts sss"
  by (intro ext) (simp add: combine_step_def Let_def cong: if_cong)

lemma combine_output_type:
  "combine_gt_ss_roi (self \<lparr> output_type := k \<rparr>) ev gts sss = combine_gt_ss_roi self ev gts sss"
  by (simp add: combine_gt_ss_roi_def combine_loop_def combine_step_output_type
      initial_state_def cong: sum.case_cong)

lemma init_attrs_output_type:
  "init_attrs (a \<lparr> arg_output_type := k \<rparr>) ev =
     map_sum id (\<lambda>self. self \<lparr> output_type := k \<rparr>) (init_attrs a ev)"
  by (simp add: init_attrs_def Let_def split: sum.splits option.splits)

lemma extend_output_type:
  "pascalvoc_attrs.extend (self \<lparr> output_type := k \<rparr>) (pascalvoc.fields db) =
     (pascalvoc_attrs.extend self (pascalvoc.fields db)) \<lparr> output_type := k \<rparr>"
  by (simp add: pascalvoc_attrs.defs pascalvoc.defs)

lemma init_output_type:
  "PASCALVOC_init (a \<lparr> arg_output_type := k \<rparr>) ev =
     map_sum id (\<lambda>self. self \<lparr> output_type := k \<rparr>) (PASCALVOC_init a ev)"
proof (cases "init_attrs a ev")
  case (Inl e)
  then show ?thesis by (simp add: PASCALVOC_init_def init_attrs_output_type)
next
  case (Inr self)
  then show ?thesis
    by (simp add: PASCALVOC_init_def init_attrs_output_type groundtruth_output_type
        selectivesearch_output_type combine_output_type extend_output_type
        split: option.splits sum.splits)
qed

text \<open>A batch whose entries are readable is assembled; only the output type can then fail.\<close>

lemma put_rows_ok:
  "off + length rows \<le> length blob \<Longrightarrow>
     \<exists>b'. put_rows blob off rows = Inr b' \<and> length b' = length blob"
  by (auto simp: put_rows_def)

lemma image_scale_ok:
  assumes "0 < fst sz" "0 < snd sz"
  shows "\<exists>sc. image_scale sz = Inr sc"
proof -
  have "real (min (fst sz) (snd sz)) \<noteq> 0" "real (max (fst sz) (snd sz)) \<noteq> 0"
    using assms by auto
  then show ?thesis
    by (simp add: image_scale_def py_float_div_def Let_def)
qed

lemma fill_image_ok:
  assumes draw: "valid_draw draw"
    and slot: "snd slot = Some d" "consistent_roidb (num_classes self) d"
      "0 < fst (image_size ev (img_file d))" "0 < snd (image_size ev (img_file d))"
    and quota: "0 \<le> fg_rois_per_image self"
      "fg_rois_per_image self \<le> real_of_int (rois_per_image self)"
    and room: "(fst slot + 1) * nat (rois_per_image self) \<le> n"
    and inv: "length (rois_mb bl) = n" "length (labels_blob bl) = n"
      "length (bbox_targets_blob bl) = n" "length (bbox_loss_blob bl) = n"
  shows "\<exists>bl'. fill_image self ev draw slot bl = Inr bl' \<and>
           length (rois_mb bl') = n \<and> length (labels_blob bl') = n \<and>
           length (bbox_targets_blob bl') = n \<and> length (bbox_loss_blob bl') = n"
proof -
  from image_scale_ok [OF slot(3,4)] obtain sc
    where sc: "image_scale (image_size ev (img_file d)) = Inr sc" by blast
  from sample_fg_bg_rois_result [OF draw slot(2) quota, of "rois_random_sample self"]
  obtain s fg_sel bg_sel where
    s: "sample_fg_bg_rois d (fg_rois_per_image self) (rois_per_image self) (num_classes self)
          (rois_random_sample self) draw = Inr s"
    and nb: "int (length bg_sel) = min (rois_per_image self - int (length fg_sel))
                (int (length (bg_pool d)))"
    and l: "s_labels s = map (\<lambda>i. max_overlap_class d ! i) fg_sel @ replicate (length bg_sel) 0"
      "s_rois s = map (\<lambda>i. bb d ! i) (fg_sel @ bg_sel)"
      "length (s_bbox_targets s) = length (fg_sel @ bg_sel)"
      "length (s_bbox_loss_weights s) = length (fg_sel @ bg_sel)"
    by blast
  define k where "k = length fg_sel + length bg_sel"
  have "int k \<le> rois_per_image self" using nb by (simp add: k_def)
  then have k: "k \<le> nat (rois_per_image self)" by simp
  define off where "off = fst slot * nat (rois_per_image self)"
  have fit: "off + k \<le> n" using room k by (simp add: off_def)
  have lens: "length (s_labels s) = k" "length (s_rois s) = k"
    "length (s_bbox_targets s) = k" "length (s_bbox_loss_weights s) = k"
    using l by (simp_all add: k_def)
  let ?rows = "map (\<lambda>r. real (fst slot) # quad_list r) (map (scale_box sc) (s_rois s))"
  from put_rows_ok [of off ?rows "rois_mb bl"] fit inv(1) lens(2)
  obtain b1 where b1: "put_rows (rois_mb bl) off ?rows = Inr b1" "length b1 = n" by auto
  from put_rows_ok [of off "s_labels s" "labels_blob bl"] fit inv(2) lens(1)
  obtain b2 where b2: "put_rows (labels_blob bl) off (s_labels s) = Inr b2" "length b2 = n"
    by auto
  from put_rows_ok [of off "s_bbox_targets s" "bbox_targets_blob bl"] fit inv(3) lens(3)
  obtain b3 where b3: "put_rows (bbox_targets_blob bl) off (s_bbox_targets s) = Inr b3"
    "length b3 = n" by auto
  from put_rows_ok [of off "s_bbox_loss_weights s" "bbox_loss_blob bl"] fit inv(4) lens(4)
  obtain b4 where b4: "put_rows (bbox_loss_blob bl) off (s_bbox_loss_weights s) = Inr b4"
    "length b4 = n" by auto
  show ?thesis
    unfolding fill_image_def Let_def
    using slot(1) sc s b1 b2 b3 b4 by (simp add: off_def)
qed

lemma make_batch_assembled:
  assumes rng: "valid_rng g"
    and entries: "\<And>i. i \<in> set (batch_inds self idx b) \<Longrightarrow>
        i < length (roi_db self) \<and>
        (\<exists>d. roi_db self ! i = Some d \<and> consistent_roidb (num_classes self) d \<and>
             0 < fst (image_size ev (img_file d)) \<and> 0 < snd (image_size ev (img_file d)))"
    and count: "int (length (batch_inds self idx b)) \<le> img_per_batch self"
    and quota: "0 \<le> fg_rois_per_image self"
      "fg_rois_per_image self \<le> real_of_int (rois_per_image self)"
    and size: "0 \<le> rois_per_image self"
      "rois_per_batch self = rois_per_image self * img_per_batch self"
  shows "\<exists>bl. make_batch self ev g idx b = select_output (output_type self) bl"
proof -
  define inds where "inds = batch_inds self idx b"
  define look where "look = (\<lambda>i. if i < length (roi_db self) then Inr (roi_db self ! i)
                                   else (Inl IndexError :: error + _))"
  have "\<And>i. i \<in> set inds \<Longrightarrow> \<exists>y. look i = Inr y"
    using entries by (simp add: inds_def look_def)
  from mapM_err_total [of inds look, OF this]
  obtain mb_db where mb: "mapM_err look inds = Inr mb_db" "length mb_db = length inds"
    "\<forall>k < length inds. look (inds ! k) = Inr (mb_db ! k)" by blast
  have ent: "\<exists>d. mb_db ! k = Some d \<and> consistent_roidb (num_classes self) d \<and>
             0 < fst (image_size ev (img_file d)) \<and> 0 < snd (image_size ev (img_file d))"
    if "k < length inds" for k
  proof -
    have "inds ! k \<in> set (batch_inds self idx b)" using that by (simp add: inds_def)
    from entries [OF this] obtain d where lt: "inds ! k < length (roi_db self)"
      and d: "roi_db self ! (inds ! k) = Some d" "consistent_roidb (num_classes self) d"
        "0 < fst (image_size ev (img_file d))" "0 < snd (image_size ev (img_file d))"
      by (auto simp: inds_def)
    from mb(3) that have "look (inds ! k) = Inr (mb_db ! k)" by blast
    then have "mb_db ! k = Some d" using lt d(1) by (simp add: look_def)
    then show ?thesis using d by blast
  qed
  have ipb: "0 \<le> img_per_batch self" using count by linarith
  have rpb: "0 \<le> rois_per_batch self" using size ipb by simp
  define n where "n = nat (rois_per_batch self)"
  have n: "n = nat (rois_per_image self) * nat (img_per_batch self)"
    using size ipb by (simp add: n_def nat_mult_distrib)
  define bl0 where "bl0 = \<lparr> rois_mb = replicate n (replicate 5 (0::real)),
                         labels_blob = replicate n (0::nat),
                         bbox_targets_blob = replicate n (replicate (4 * num_classes self) (Fin 0)),
                         bbox_loss_blob = replicate n (replicate (4 * num_classes self) (0::real)),
                         img_np = replicate (nat (img_per_batch self)) None \<rparr>"
  define P where "P = (\<lambda>bl :: blobs. length (rois_mb bl) = n \<and> length (labels_blob bl) = n \<and>
           length (bbox_targets_blob bl) = n \<and> length (bbox_loss_blob bl) = n)"
  have P0: "P bl0" by (simp add: P_def bl0_def)
  have step: "\<exists>bl'. fill_image self ev (draw_for g b (fst slot)) slot bl = Inr bl' \<and> P bl'"
    if "slot \<in> set (zip [0..<length mb_db] mb_db)" "P bl" for slot bl
  proof -
    from that(1) obtain k where k: "k < length mb_db" "slot = (k, mb_db ! k)"
      by (auto simp: in_set_conv_nth)
    from ent [of k] k(1) mb(2) obtain d where d: "snd slot = Some d"
      "consistent_roidb (num_classes self) d"
      "0 < fst (image_size ev (img_file d))" "0 < snd (image_size ev (img_file d))"
      using k(2) by auto
    have "k + 1 \<le> nat (img_per_batch self)" using k(1) mb(2) count by (simp add: inds_def)
    then have "(k + 1) * nat (rois_per_image self) \<le> n"
      unfolding n by (metis mult.commute mult_le_mono1)
    then have room: "(fst slot + 1) * nat (rois_per_image self) \<le> n" using k(2) by simp
    have dr: "valid_draw (draw_for g b (fst slot))" using rng by (simp add: valid_rng_def)
    from fill_image_ok [OF dr d quota room] that(2)
    show ?thesis by (simp add: P_def)
  qed
  from foldM_err_invariant [of P bl0 "zip [0..<length mb_db] mb_db"
      "\<lambda>slot. fill_image self ev (draw_for g b (fst slot)) slot", OF P0 step]
  obtain bl where bl: "foldM_err (\<lambda>slot. fill_image self ev (draw_for g b (fst slot)) slot)
                         (zip [0..<length mb_db] mb_db) bl0 = Inr bl"
    by blast
  have "make_batch self ev g idx b = select_output (output_type self) bl"
    unfolding make_batch_def Let_def
    using mb(1) rpb bl
    unfolding inds_def look_def bl0_def n_def
    by simp
  then show ?thesis by blast
qed

lemma py_slice_nat: "py_slice xs (int s) (int e) = take (e - s) (drop s xs)"
proof (cases "s < length xs")
  case False
  then show ?thesis by (simp add: py_slice_def slice_bound_def Let_def)
next
  case True
  show ?thesis
  proof (cases "e \<le> length xs")
    case True
    then show ?thesis using \<open>s < length xs\<close>
      by (simp add: py_slice_def slice_bound_def Let_def min_def)
  next
    case False
    then show ?thesis using \<open>s < length xs\<close>
      by (simp add: py_slice_def slice_bound_def Let_def min_def)
  qed
qed

lemma concat_slices: "concat (map (\<lambda>b. take m (drop (b * m) xs)) [0..<k]) = take (k * m) xs"
proof (induction k)
  case 0
  show ?case by simp
next
  case (Suc k)
  have "concat (map (\<lambda>b. take m (drop (b * m) xs)) [0..<Suc k]) =
      take (k * m) xs @ take m (drop (k * m) xs)"
    using Suc by simp
  also have "\<dots> = take (k * m + m) xs" by (simp only: take_add)
  also have "k * m + m = Suc k * m" by simp
  finally show ?case .
qed

lemma value_or_nonzero: "d \<noteq> 0 \<Longrightarrow> value_or x d \<noteq> 0"
  by (simp add: value_or_def split: option.splits)

lemma init_attrs_facts:
  assumes "init_attrs a ev = Inr self"
  shows "0 < img_per_batch self"
    "rois_per_batch self = rois_per_image self * img_per_batch self"
    "fg_rois_per_image self = FRCN_FG_FRAC * real_of_int (rois_per_image self)"
    "nbatches self = (case arg_n_mb a of
                        None \<Rightarrow> int (num_image_entries self) div img_per_batch self
                      | Some m \<Rightarrow> m)"
    "num_classes self = PASCAL_VOC_NUM_CLASSES"
    "num_images self = length (image_index self)"
    "num_image_entries self = (if add_flipped self then num_images self * 2 else num_images self)"
    "output_type self = arg_output_type a"
proof -
  have nz: "value_or (arg_img_per_batch a) FRCN_IMG_PER_BATCH \<noteq> 0"
    by (rule value_or_nonzero) (simp add: FRCN_IMG_PER_BATCH_def)
  from assms nz show "0 < img_per_batch self"
    by (auto simp: init_attrs_def Let_def split: sum.splits if_splits option.splits)
  from assms show "rois_per_batch self = rois_per_image self * img_per_batch self"
    "fg_rois_per_image self = FRCN_FG_FRAC * real_of_int (rois_per_image self)"
    "nbatches self = (case arg_n_mb a of
                        None \<Rightarrow> int (num_image_entries self) div img_per_batch self
                      | Some m \<Rightarrow> m)"
    "num_classes self = PASCAL_VOC_NUM_CLASSES"
    "num_images self = length (image_index self)"
    "num_image_entries self = (if add_flipped self then num_images self * 2 else num_images self)"
    "output_type self = arg_output_type a"
    by (auto simp: init_attrs_def Let_def split: sum.splits if_splits option.splits)
qed

lemma init_attrs_of:
  assumes "PASCALVOC_init a ev = Inr self"
  shows "\<exists>ats db. init_attrs a ev = Inr ats \<and>
           self = pascalvoc_attrs.extend ats (pascalvoc.fields db)"
  using assms
  by (auto simp: PASCALVOC_init_def split: sum.splits option.splits)

lemma init_facts:
  assumes "PASCALVOC_init a ev = Inr self"
  shows "0 < img_per_batch self"
    "rois_per_batch self = rois_per_image self * img_per_batch self"
    "fg_rois_per_image self = FRCN_FG_FRAC * real_of_int (rois_per_image self)"
    "nbatches self = (case arg_n_mb a of
                        None \<Rightarrow> int (num_image_entries self) div img_per_batch self
                      | Some m \<Rightarrow> m)"
    "num_classes self = PASCAL_VOC_NUM_CLASSES"
    "output_type self = arg_output_type a"
proof -
  from init_attrs_of [OF assms] obtain ats db where ats: "init_attrs a ev = Inr ats"
    and self: "self = pascalvoc_attrs.extend ats (pascalvoc.fields db)" by blast
  have sel: "img_per_batch self = img_per_batch ats" "rois_per_batch self = rois_per_batch ats"
    "rois_per_image self = rois_per_image ats" "fg_rois_per_image self = fg_rois_per_image ats"
    "nbatches self = nbatches ats" "num_image_entries self = num_image_entries ats"
    "num_classes self = num_classes ats" "output_type self = output_type ats"
    by (simp_all add: self pascalvoc_attrs.defs pascalvoc.defs)
  show "0 < img_per_batch self"
    unfolding sel by (rule init_attrs_facts(1) [OF ats])
  show "rois_per_batch self = rois_per_image self * img_per_batch self"
    unfolding sel by (rule init_attrs_facts(2) [OF ats])
  show "fg_rois_per_image self = FRCN_FG_FRAC * real_of_int (rois_per_image self)"
    unfolding sel by (rule init_attrs_facts(3) [OF ats])
  show "nbatches self = (case arg_n_mb a of
                        None \<Rightarrow> int (num_image_entries self) div img_per_batch self
                      | Some m \<Rightarrow> m)"
    unfolding sel by (rule init_attrs_facts(4) [OF ats])
  show "num_classes self = PASCAL_VOC_NUM_CLASSES"
    unfolding sel by (rule init_attrs_facts(5) [OF ats])
  show "output_type self = arg_output_type a"
    unfolding sel by (rule init_attrs_facts(8) [OF ats])
qed

lemma shuffled_index_perm:
  assumes "valid_rng g"
  shows "set (shuffled_index self g) = {..<num_image_entries self}"
    "length (shuffled_index self g) = num_image_entries self"
proof -
  have d: "distinct (shuffled_index self g)"
    using assms by (simp add: shuffled_index_def valid_rng_def)
  show s: "set (shuffled_index self g) = {..<num_image_entries self}"
    using assms by (auto simp: shuffled_index_def valid_rng_def)
  from d have "length (shuffled_index self g) = card (set (shuffled_index self g))"
    by (simp add: distinct_card)
  then show "length (shuffled_index self g) = num_image_entries self" using s by simp
qed

text \<open>Every batch of an epoch of a readable dataset is assembled.\<close>

lemma epoch_batches_assembled:
  assumes ipb: "0 < img_per_batch self"
    and size: "0 \<le> rois_per_image self"
      "rois_per_batch self = rois_per_image self * img_per_batch self"
    and fg: "fg_rois_per_image self = FRCN_FG_FRAC * real_of_int (rois_per_image self)"
    and db: "readable_db self ev" and rng: "valid_rng g"
  shows "\<exists>bl. make_batch self ev g (shuffled_index self g) b = select_output (output_type self) bl"
proof (rule make_batch_assembled [OF rng])
  define m where "m = nat (img_per_batch self)"
  have m: "img_per_batch self = int m" using ipb by (simp add: m_def)
  have sl: "batch_inds self (shuffled_index self g) b =
       take m (drop (b * m) (shuffled_index self g))"
  proof -
    have "int b * int m = int (b * m)" "(int b + 1) * int m = int ((b + 1) * m)"
      by (simp_all add: algebra_simps)
    then have "batch_inds self (shuffled_index self g) b =
        take ((b + 1) * m - b * m) (drop (b * m) (shuffled_index self g))"
      unfolding batch_inds_def m by (simp only: py_slice_nat)
    then show ?thesis by simp
  qed
  show "int (length (batch_inds self (shuffled_index self g) b)) \<le> img_per_batch self"
    unfolding sl m by simp
  show "0 \<le> fg_rois_per_image self"
    "fg_rois_per_image self \<le> real_of_int (rois_per_image self)"
    using size(1) by (simp_all add: fg FRCN_FG_FRAC_def)
  show "0 \<le> rois_per_image self"
    "rois_per_batch self = rois_per_image self * img_per_batch self"
    by (rule size)+
  fix i assume "i \<in> set (batch_inds self (shuffled_index self g) b)"
  then have "i \<in> set (shuffled_index self g)"
    unfolding sl by (meson in_set_dropD in_set_takeD)
  then have i: "i < length (roi_db self)"
    using shuffled_index_perm(1) [OF rng, of self] db by (simp add: readable_db_def)
  then have "roi_db self ! i \<in> set (roi_db self)" by simp
  with db have "case roi_db self ! i of
                  None \<Rightarrow> False
                | Some d \<Rightarrow> consistent_roidb (num_classes self) d \<and>
                    0 < fst (image_size ev (img_file d)) \<and>
                    0 < snd (image_size ev (img_file d))"
    unfolding readable_db_def list_all_iff by blast
  with i show "i < length (roi_db self) \<and>
        (\<exists>d. roi_db self ! i = Some d \<and> consistent_roidb (num_classes self) d \<and>
             0 < fst (image_size ev (img_file d)) \<and> 0 < snd (image_size ev (img_file d)))"
    by (auto split: option.splits)
qed

subsection \<open>The constructor and the iterator on the examples\<close>

lemma example_rng_valid: "valid_rng example_rng"
  by (auto simp: valid_rng_def example_rng_def first_k_valid)

lemma example_init:
  "PASCALVOC_init (example_args \<lparr> arg_output_type := k \<rparr>) cached_env =
     Inr (example_dataset \<lparr> output_type := k \<rparr>)"
proof -
  have "init_attrs (example_args \<lparr> arg_output_type := k \<rparr>) cached_env =
      Inr (example_attrs \<lparr> output_type := k \<rparr>)"
    by (simp add: init_attrs_def cached_env_def example_args_def example_env_def value_or_def
        load_voc_def dataset_meta_keys_def Let_def FRCN_FG_FRAC_def FRCN_IOU_THRE_def
        PASCAL_VOC_NUM_CLASSES_def FRCN_IMG_PER_BATCH_def FRCN_ROI_PER_IMAGE_def
        example_attrs_def)
  then show ?thesis
    by (simp add: PASCALVOC_init_def)
      (simp add: cached_env_def example_dataset_def pascalvoc_attrs.defs pascalvoc.defs)
qed

lemma example_dataset_fields:
  "roi_db (example_dataset \<lparr> output_type := k \<rparr>) = [Some example_roidb]"
  "num_image_entries (example_dataset \<lparr> output_type := k \<rparr>) = 1"
  "num_classes (example_dataset \<lparr> output_type := k \<rparr>) = 21"
  "nbatches (example_dataset \<lparr> output_type := k \<rparr>) = 1"
  "rois_per_image (example_dataset \<lparr> output_type := k \<rparr>) = 4"
  "output_type (example_dataset \<lparr> output_type := k \<rparr>) = k"
  by (simp_all add: example_dataset_def example_attrs_def pascalvoc_attrs.defs pascalvoc.defs)

lemma example_readable: "readable_db (example_dataset \<lparr> output_type := k \<rparr>) cached_env"
  unfolding readable_db_def example_dataset_fields
  by (simp add: example_consistent) (simp add: cached_env_def example_env_def)

text \<open>
  Claim C3, as stated, fails: with the unsupported selector 3 the constructor returns the
  dataset object, and the \<open>ValueError\<close> is raised by the iterator, at its first batch.
\<close>

theorem unsupported_output_type_is_constructed:
  "PASCALVOC_init (example_args \<lparr> arg_output_type := 3 \<rparr>) cached_env =
     Inr (example_dataset \<lparr> output_type := 3 \<rparr>) \<and>
   PASCALVOC_iter (example_dataset \<lparr> output_type := 3 \<rparr>) cached_env example_rng =
     ([], Some ValueError)"
proof -
  let ?self = "example_dataset \<lparr> output_type := 3 \<rparr>"
  have i: "PASCALVOC_init (example_args \<lparr> arg_output_type := 3 \<rparr>) cached_env = Inr ?self"
    by (rule example_init)
  from epoch_batches_assembled [OF init_facts(1) [OF i] _ init_facts(2,3) [OF i]
      example_readable example_rng_valid, of 0]
  obtain bl where "make_batch ?self cached_env example_rng (shuffled_index ?self example_rng) 0
      = select_output (output_type ?self) bl"
    by (auto simp: example_dataset_fields)
  then have "make_batch ?self cached_env example_rng (shuffled_index ?self example_rng) 0
      = Inl ValueError"
    by (simp add: example_dataset_fields select_output_def)
  then have "PASCALVOC_iter ?self cached_env example_rng = ([], Some ValueError)"
    by (simp add: PASCALVOC_iter_def example_dataset_fields)
  with i show ?thesis by simp
qed

text \<open>
  Claim C3, amended.  The constructor does not check the output-shape selector: for any
  value it succeeds or fails exactly as for any other value, and stores it.  For a
  constructed dataset whose selector is not 0, 1 or 2 the failure comes at iteration
  time: the iterator yields no batch, it raises at its first batch when there is one to
  produce, and the exception is \<open>ValueError\<close> when the batch itself can be assembled.
\<close>

theorem output_type_checked_by_iterator:
  "PASCALVOC_init (a \<lparr> arg_output_type := k \<rparr>) ev =
     map_sum id (\<lambda>self. self \<lparr> output_type := k \<rparr>) (PASCALVOC_init a ev) \<and>
   (PASCALVOC_init a ev = Inr self \<and> output_type self \<notin> {0, 1, 2} \<longrightarrow>
      fst (PASCALVOC_iter self ev g) = [] \<and>
      (0 < nbatches self \<longrightarrow> snd (PASCALVOC_iter self ev g) \<noteq> None) \<and>
      (0 < nbatches self \<and> 0 \<le> rois_per_image self \<and> readable_db self ev \<and> valid_rng g \<longrightarrow>
         PASCALVOC_iter self ev g = ([], Some ValueError)))"
proof (intro conjI impI)
  show "PASCALVOC_init (a \<lparr> arg_output_type := k \<rparr>) ev =
     map_sum id (\<lambda>self. self \<lparr> output_type := k \<rparr>) (PASCALVOC_init a ev)"
    by (rule init_output_type)
next
  assume h: "PASCALVOC_init a ev = Inr self \<and> output_type self \<notin> {0, 1, 2}"
  then have fail: "\<And>b. \<exists>e. make_batch self ev g (shuffled_index self g) b = Inl e"
    using make_batch_unsupported by blast
  show "fst (PASCALVOC_iter self ev g) = []"
    unfolding PASCALVOC_iter_def by (rule run_generator_all_fail(1) [OF fail])
  show "snd (PASCALVOC_iter self ev g) \<noteq> None" if "0 < nbatches self"
    unfolding PASCALVOC_iter_def
    by (rule run_generator_all_fail(2) [OF fail]) (use that in simp)
  show "PASCALVOC_iter self ev g = ([], Some ValueError)"
    if r: "0 < nbatches self \<and> 0 \<le> rois_per_image self \<and> readable_db self ev \<and> valid_rng g"
  proof -
    from h have i: "PASCALVOC_init a ev = Inr self" by simp
    from r have "[0..<nat (nbatches self)] = 0 # [1..<nat (nbatches self)]"
      by (simp add: upt_conv_Cons)
    moreover from epoch_batches_assembled [OF init_facts(1) [OF i] _ init_facts(2,3) [OF i],
        of ev g 0] r
    obtain bl where "make_batch self ev g (shuffled_index self g) 0
        = select_output (output_type self) bl" by blast
    then have "make_batch self ev g (shuffled_index self g) 0 = Inl ValueError"
      using h by (simp add: select_output_unsupported)
    ultimately show ?thesis by (simp add: PASCALVOC_iter_def)
  qed
qed

theorem output_type_checked_by_iterator_witness:
  "PASCALVOC_init (example_args \<lparr> arg_output_type := 7 \<rparr>) cached_env =
     Inr (example_dataset \<lparr> output_type := 7 \<rparr>) \<and>
   output_type (example_dataset \<lparr> output_type := 7 \<rparr>) \<notin> {0, 1, 2} \<and>
   0 < nbatches (example_dataset \<lparr> output_type := 7 \<rparr>) \<and>
   0 \<le> rois_per_image (example_dataset \<lparr> output_type := 7 \<rparr>) \<and>
   readable_db (example_dataset \<lparr> output_type := 7 \<rparr>) cached_env \<and>
   valid_rng example_rng \<and>
   PASCALVOC_iter (example_dataset \<lparr> output_type := 7 \<rparr>) cached_env example_rng =
     ([], Some ValueError)"
proof -
  let ?a = "example_args \<lparr> arg_output_type := 7 \<rparr>"
  let ?self = "example_dataset \<lparr> output_type := 7 \<rparr>"
  have i: "PASCALVOC_init ?a cached_env = Inr ?self" by (rule example_init)
  have o: "output_type ?self \<notin> {0, 1, 2}" "0 < nbatches ?self" "0 \<le> rois_per_image ?self"
    by (simp_all add: example_dataset_fields)
  from output_type_checked_by_iterator [where a = ?a and k = 7 and ev = cached_env
      and self = ?self and g = example_rng]
    i o example_readable [of 7] example_rng_valid
  have "PASCALVOC_iter ?self cached_env example_rng = ([], Some ValueError)" by blast
  with i o example_readable [of 7] example_rng_valid show ?thesis by blast
qed

text \<open>
  Claim C10.  For a dataset constructed without a minibatch-count override, with a
  supported output type, a non-negative number of regions per image and a readable
  database, one epoch yields exactly \<open>floor(num_image_entries / img_per_batch)\<close> batches
  and ends without an exception.  The batches read the first
  \<open>num_image_entries - num_image_entries mod img_per_batch\<close> positions of the epoch's
  index order and nothing else: without shuffling the last
  \<open>num_image_entries mod img_per_batch\<close> entries are never visited.
\<close>

theorem epoch_drops_trailing_entries:
  assumes init: "PASCALVOC_init a ev = Inr self" and no_override: "arg_n_mb a = None"
    and supported: "output_type self \<in> {0, 1, 2}"
    and rois: "0 \<le> rois_per_image self"
    and db: "readable_db self ev" and rng: "valid_rng g"
  shows "\<exists>ys. PASCALVOC_iter self ev g = (ys, None) \<and>
     int (length ys) = int (num_image_entries self) div img_per_batch self \<and>
     visited self g =
       take (num_image_entries self - num_image_entries self mod nat (img_per_batch self))
         (shuffled_index self g) \<and>
     (\<not> shuffle self \<longrightarrow>
        visited self g =
          [0..<num_image_entries self - num_image_entries self mod nat (img_per_batch self)])"
proof -
  define m where "m = nat (img_per_batch self)"
  define N where "N = num_image_entries self"
  have ipb: "0 < img_per_batch self" by (rule init_facts(1) [OF init])
  then have m: "img_per_batch self = int m" "0 < m" by (simp_all add: m_def)
  have nb: "nbatches self = int (N div m)"
    using init_facts(4) [OF init] no_override by (simp add: m N_def zdiv_int)
  have ok: "\<exists>y. make_batch self ev g (shuffled_index self g) b = Inr y" for b
  proof -
    from epoch_batches_assembled [OF ipb rois init_facts(2,3) [OF init] db rng, of b]
    obtain bl where "make_batch self ev g (shuffled_index self g) b
        = select_output (output_type self) bl" by blast
    with select_output_supported [OF supported, of bl] show ?thesis by auto
  qed
  from run_generator_all_ok [of "[0..<nat (nbatches self)]"
      "make_batch self ev g (shuffled_index self g)"] ok
  obtain ys where ys: "PASCALVOC_iter self ev g = (ys, None)"
    "length ys = length [0..<nat (nbatches self)]"
    unfolding PASCALVOC_iter_def by blast
  have len: "int (length ys) = int N div img_per_batch self"
    using ys(2) nb by (simp add: m flip: zdiv_int)
  have sl: "batch_inds self (shuffled_index self g) b =
       take m (drop (b * m) (shuffled_index self g))" for b
  proof -
    have "int b * int m = int (b * m)" "(int b + 1) * int m = int ((b + 1) * m)"
      by (simp_all add: algebra_simps)
    then have "batch_inds self (shuffled_index self g) b =
        take ((b + 1) * m - b * m) (drop (b * m) (shuffled_index self g))"
      unfolding batch_inds_def m by (simp only: py_slice_nat)
    then show ?thesis by simp
  qed
  have "batch_inds self (shuffled_index self g) =
      (\<lambda>b. take m (drop (b * m) (shuffled_index self g)))"
    by (intro ext) (rule sl)
  then have "visited self g = take (N div m * m) (shuffled_index self g)"
    unfolding visited_def by (simp add: concat_slices nb)
  moreover have "N div m * m = N - N mod m"
    by (simp add: minus_mod_eq_div_mult)
  ultimately have v: "visited self g = take (N - N mod m) (shuffled_index self g)" by simp
  have u: "visited self g = [0..<N - N mod m]" if "\<not> shuffle self"
    using v that by (simp add: shuffled_index_def N_def)
  show ?thesis using ys(1) len v u by (simp add: N_def m_def)
qed

lemma three_init: "PASCALVOC_init three_args three_env = Inr three_dataset"
proof -
  have "init_attrs three_args three_env =
      Inr (example_attrs \<lparr> img_per_batch := 2, rois_per_batch := 8,
                        image_index := [''000001'', ''000002'', ''000003''],
                        num_images := 3, num_image_entries := 3, ndata := 12,
                        nbatches := 1 \<rparr>)"
    by (simp add: init_attrs_def three_args_def three_env_def cached_env_def example_args_def
        example_env_def value_or_def load_voc_def dataset_meta_keys_def Let_def
        FRCN_FG_FRAC_def FRCN_IOU_THRE_def PASCAL_VOC_NUM_CLASSES_def FRCN_IMG_PER_BATCH_def
        FRCN_ROI_PER_IMAGE_def example_attrs_def)
  then show ?thesis
    by (simp add: PASCALVOC_init_def)
      (simp add: three_env_def cached_env_def three_dataset_def pascalvoc_attrs.defs
        pascalvoc.defs)
qed

lemma three_dataset_fields:
  "roi_db three_dataset = [Some example_roidb, Some example_roidb, Some example_roidb]"
  "num_image_entries three_dataset = 3" "num_classes three_dataset = 21"
  "img_per_batch three_dataset = 2" "rois_per_image three_dataset = 4"
  "output_type three_dataset = 0" "shuffle three_dataset = False"
  by (simp_all add: three_dataset_def example_attrs_def pascalvoc_attrs.defs pascalvoc.defs)

lemma three_readable: "readable_db three_dataset three_env"
  unfolding readable_db_def three_dataset_fields
  by (simp add: example_consistent) (simp add: three_env_def cached_env_def example_env_def)

theorem epoch_drops_trailing_entries_witness:
  "PASCALVOC_init three_args three_env = Inr three_dataset \<and>
   arg_n_mb three_args = None \<and> output_type three_dataset \<in> {0, 1, 2} \<and>
   0 \<le> rois_per_image three_dataset \<and> readable_db three_dataset three_env \<and>
   valid_rng example_rng \<and> num_image_entries three_dataset = 3 \<and>
   img_per_batch three_dataset = 2 \<and>
   (\<exists>ys. PASCALVOC_iter three_dataset three_env example_rng = (ys, None) \<and>
         length ys = 1 \<and> visited three_dataset example_rng = [0, 1])"
proof -
  have h: "arg_n_mb three_args = None" "output_type three_dataset \<in> {0, 1, 2}"
    "0 \<le> rois_per_image three_dataset"
    by (simp_all add: three_args_def example_args_def three_dataset_fields)
  from epoch_drops_trailing_entries [OF three_init h three_readable example_rng_valid]
  obtain ys where ys: "PASCALVOC_iter three_dataset three_env example_rng = (ys, None)"
    "int (length ys) = int (num_image_entries three_dataset) div img_per_batch three_dataset"
    "\<not> shuffle three_dataset \<longrightarrow>
        visited three_dataset example_rng =
          [0..<num_image_entries three_dataset
                 - num_image_entries three_dataset mod nat (img_per_batch three_dataset)]"
    by blast
  from ys(2) have l: "length ys = 1" by (simp add: three_dataset_fields)
  from ys(3) have "visited three_dataset example_rng = [0..<2]"
    by (simp add: three_dataset_fields)
  then have v: "visited three_dataset example_rng = [0, 1]" by (simp add: upt_rec)
  show ?thesis
    using three_init h three_readable example_rng_valid ys(1) l v
    by (simp add: three_dataset_fields)
qed

subsection \<open>Facts about the builder\<close>

lemma foldM_err_snoc:
  "foldM_err f (xs @ [x]) s =
     (case foldM_err f xs s of Inl e \<Rightarrow> Inl e | Inr s' \<Rightarrow> f x s')"
  by (induction xs arbitrary: s) (auto split: sum.splits)

text \<open>
  The first loop, after \<open>k\<close> images: array \<open>i\<close> holds the rows of image \<open>i\<close>, negated in
  \<open>dx\<close> when flipping is on, and both entries of image \<open>i\<close> point to it.
\<close>

lemma combine_prefix:
  assumes "k \<le> num_images self"
    and "num_image_entries self =
           (if add_flipped self then num_images self * 2 else num_images self)"
  shows "\<exists>s. foldM_err (combine_step self ev gts sss) [0..<k] (initial_state self) = Inr s \<and>
     heap s = map (stored_targets self gts sss) [0..<k] \<and>
     length (roi_gt_ss s) = num_image_entries self \<and>
     (\<forall>i < k. roi_gt_ss s ! i = Some (plain_entry self gts sss i) \<and>
        (add_flipped self \<longrightarrow>
           roi_gt_ss s ! (i + num_images self) = Some (flipped_entry self ev gts sss i))) \<and>
     acc s = fold (\<lambda>i. acc_image self (raw_targets gts sss i)) [0..<k]
               (acc (initial_state self))"
  using assms(1)
proof (induction k)
  case 0
  show ?case by (simp add: initial_state_def)
next
  case (Suc k)
  then obtain s where s:
    "foldM_err (combine_step self ev gts sss) [0..<k] (initial_state self) = Inr s"
    "heap s = map (stored_targets self gts sss) [0..<k]"
    "length (roi_gt_ss s) = num_image_entries self"
    "\<forall>i < k. roi_gt_ss s ! i = Some (plain_entry self gts sss i) \<and>
        (add_flipped self \<longrightarrow>
           roi_gt_ss s ! (i + num_images self) = Some (flipped_entry self ev gts sss i))"
    "acc s = fold (\<lambda>i. acc_image self (raw_targets gts sss i)) [0..<k]
               (acc (initial_state self))"
    by auto
  have k: "k < num_images self" using Suc.prems by simp
  have lh: "length (heap s) = k" using s(2) by simp
  show ?case
  proof (cases "add_flipped self")
    case False
    have kl: "k < length (roi_gt_ss s)" using k s(3) assms(2) False by simp
    let ?s' = "s \<lparr> roi_gt_ss := (roi_gt_ss s)[k := Some (plain_entry self gts sss k)],
                   heap := heap s @ [raw_targets gts sss k],
                   acc := accumulate (num_classes self) (raw_targets gts sss k) (acc s) \<rparr>"
    have step: "combine_step self ev gts sss k s = Inr ?s'"
      using False kl lh
      by (simp add: combine_step_def Let_def plain_entry_def raw_targets_def nth_append)
    have "foldM_err (combine_step self ev gts sss) [0..<Suc k] (initial_state self) = Inr ?s'"
      using s(1) step by (simp add: foldM_err_snoc)
    moreover have "heap ?s' = map (stored_targets self gts sss) [0..<Suc k]"
      using s(2) False by (simp add: stored_targets_def)
    moreover have "length (roi_gt_ss ?s') = num_image_entries self" using s(3) by simp
    moreover have "\<forall>i < Suc k. roi_gt_ss ?s' ! i = Some (plain_entry self gts sss i) \<and>
        (add_flipped self \<longrightarrow>
           roi_gt_ss ?s' ! (i + num_images self) = Some (flipped_entry self ev gts sss i))"
      using s(4) False kl by (auto simp: nth_list_update less_Suc_eq)
    moreover have "acc ?s' = fold (\<lambda>i. acc_image self (raw_targets gts sss i)) [0..<Suc k]
               (acc (initial_state self))"
      using s(5) False by (simp add: acc_image_def)
    ultimately show ?thesis by blast
  next
    case True
    have kl: "k < length (roi_gt_ss s)" "k + num_images self < length (roi_gt_ss s)"
      using k s(3) assms(2) True by simp_all
    let ?s' = "s \<lparr> roi_gt_ss := (roi_gt_ss s)[k := Some (plain_entry self gts sss k),
                                   k + num_images self := Some (flipped_entry self ev gts sss k)],
                   heap := heap s @ [map negate_dx (raw_targets gts sss k)],
                   acc := accumulate (num_classes self) (map negate_dx (raw_targets gts sss k))
                            (accumulate (num_classes self) (raw_targets gts sss k) (acc s)) \<rparr>"
    have step: "combine_step self ev gts sss k s = Inr ?s'"
      using True kl lh
      by (simp add: combine_step_def Let_def plain_entry_def flipped_entry_def raw_targets_def
          nth_append list_update_append)
    have "foldM_err (combine_step self ev gts sss) [0..<Suc k] (initial_state self) = Inr ?s'"
      using s(1) step by (simp add: foldM_err_snoc)
    moreover have "heap ?s' = map (stored_targets self gts sss) [0..<Suc k]"
      using s(2) True by (simp add: stored_targets_def)
    moreover have "length (roi_gt_ss ?s') = num_image_entries self" using s(3) by simp
    moreover have "\<forall>i < Suc k. roi_gt_ss ?s' ! i = Some (plain_entry self gts sss i) \<and>
        (add_flipped self \<longrightarrow>
           roi_gt_ss ?s' ! (i + num_images self) = Some (flipped_entry self ev gts sss i))"
      using s(4) True kl k by (auto simp: nth_list_update less_Suc_eq)
    moreover have "acc ?s' = fold (\<lambda>i. acc_image self (raw_targets gts sss i)) [0..<Suc k]
               (acc (initial_state self))"
      using s(5) True by (simp add: acc_image_def)
    ultimately show ?thesis by blast
  qed
qed

text \<open>The normalisation of one array touches the rows of the classes \<open>1 .. ncls - 1\<close>, once.\<close>

lemma normalize_cls_map:
  "normalize_cls means stds cls rows =
     map (\<lambda>t. if fst t = cls then norm_row means stds t else t) rows"
proof -
  define inds where "inds = where_idx (\<lambda>t. fst t = cls) rows"
  define f1 where "f1 = (\<lambda>(i::nat) (t :: npfloat trow).
                          (fst t, zip_quad np_sub (snd t) (means ! cls)))"
  define f2 where "f2 = (\<lambda>(i::nat) (t :: npfloat trow).
                          (fst t, zip_quad np_div (snd t) (stds ! cls)))"
  define rows1 where "rows1 = fold (\<lambda>i rs. rs[i := f1 i (rs ! i)]) inds rows"
  define rows2 where "rows2 = fold (\<lambda>i rs. rs[i := f2 i (rs ! i)]) inds rows1"
  have eq: "normalize_cls means stds cls rows = rows2"
    by (simp add: normalize_cls_def Let_def rows2_def rows1_def f1_def f2_def inds_def)
  have d: "distinct inds" by (simp add: inds_def where_idx_distinct)
  have l1: "length rows1 = length rows"
    unfolding rows1_def by (rule fold_update_length [of "\<lambda>i rs. f1 i (rs ! i)"])
  have l2: "length rows2 = length rows"
    unfolding rows2_def using fold_update_length [of "\<lambda>i rs. f2 i (rs ! i)" inds rows1] l1
    by simp
  have n: "rows2 ! r = (if fst (rows ! r) = cls then norm_row means stds (rows ! r) else rows ! r)"
    if "r < length rows" for r
  proof -
    have m: "r \<in> set inds \<longleftrightarrow> fst (rows ! r) = cls"
      using that by (simp add: inds_def where_idx_set)
    have "rows1 ! r = (if r \<in> set inds then f1 r (rows ! r) else rows ! r)"
      unfolding rows1_def by (rule fold_update_nth [OF d that])
    moreover have "rows2 ! r = (if r \<in> set inds then f2 r (rows1 ! r) else rows1 ! r)"
      unfolding rows2_def using fold_update_nth [OF d, of r rows1 f2] that l1 by simp
    ultimately show ?thesis using m by (auto simp: f1_def f2_def norm_row_def)
  qed
  have "rows2 = map (\<lambda>t. if fst t = cls then norm_row means stds t else t) rows"
    using l2 n by (simp add: list_eq_iff_nth_eq)
  with eq show ?thesis by simp
qed

lemma norm_row_class: "fst (norm_row means stds t) = fst t"
  by (simp add: norm_row_def)

lemma normalize_classes_map:
  "distinct cs \<Longrightarrow>
     fold (normalize_cls means stds) cs rows =
       map (\<lambda>t. if fst t \<in> set cs then norm_row means stds t else t) rows"
proof (induction cs arbitrary: rows)
  case Nil
  show ?case by simp
next
  case (Cons c cs)
  then have c: "c \<notin> set cs" "distinct cs" by auto
  show ?case
    using Cons.IH [OF c(2)] c(1)
    by (auto simp: normalize_cls_map norm_row_class)
qed

lemma normalize_targets_map:
  "normalize_targets ncls means stds rows =
     map (\<lambda>t. if 1 \<le> fst t \<and> fst t < ncls then norm_row means stds t else t) rows"
  unfolding normalize_targets_def by (simp add: normalize_classes_map)

text \<open>The second loop normalises the arrays \<open>0 .. k - 1\<close>, each once.\<close>

lemma normalize_prefix:
  assumes "\<forall>i < k. \<exists>e. slots ! i = Some e \<and> bb_targets e = i"
    and "k \<le> length slots" "k \<le> length hp"
  shows "foldM_err (normalize_step ncls means stds slots) [0..<k] hp =
           Inr (map (normalize_targets ncls means stds) (take k hp) @ drop k hp)"
  using assms
proof (induction k)
  case 0
  show ?case by simp
next
  case (Suc k)
  let ?N = "normalize_targets ncls means stds"
  have IH: "foldM_err (normalize_step ncls means stds slots) [0..<k] hp =
           Inr (map ?N (take k hp) @ drop k hp)"
    using Suc by simp
  from Suc.prems obtain e where e: "slots ! k = Some e" "bb_targets e = k" by auto
  have k: "k < length slots" "k < length hp" using Suc.prems by simp_all
  have "normalize_step ncls means stds slots k (map ?N (take k hp) @ drop k hp) =
      Inr ((map ?N (take k hp) @ drop k hp)[k := ?N ((map ?N (take k hp) @ drop k hp) ! k)])"
    using e k by (simp add: normalize_step_def Let_def)
  also have "(map ?N (take k hp) @ drop k hp) ! k = hp ! k"
    using k by (simp add: nth_append)
  also have "(map ?N (take k hp) @ drop k hp)[k := ?N (hp ! k)] =
      map ?N (take (Suc k) hp) @ drop (Suc k) hp"
    using k by (simp add: list_update_append take_Suc_conv_app_nth
        Cons_nth_drop_Suc [symmetric])
  finally show ?case using IH by (simp add: foldM_err_snoc)
qed

text \<open>
  The result of \<^verbatim>\<open>combine_gt_ss_roi\<close> in closed form, for an object whose image counts
  agree with its inputs.
\<close>

lemma combine_gt_ss_roi_result:
  assumes len: "length gts = num_images self" "length sss = num_images self"
    and ent: "num_image_entries self =
           (if add_flipped self then num_images self * 2 else num_images self)"
  shows "\<exists>s. combine_loop self ev gts sss = Inr s \<and>
     heap s = map (stored_targets self gts sss) [0..<num_images self] \<and>
     length (roi_gt_ss s) = num_image_entries self \<and>
     (\<forall>i < num_images self. roi_gt_ss s ! i = Some (plain_entry self gts sss i) \<and>
        (add_flipped self \<longrightarrow>
           roi_gt_ss s ! (i + num_images self) = Some (flipped_entry self ev gts sss i))) \<and>
     acc s = fold (\<lambda>i. acc_image self (raw_targets gts sss i)) [0..<num_images self]
               (acc (initial_state self)) \<and>
     combine_gt_ss_roi self ev gts sss =
       Inr (roi_gt_ss s,
            map (\<lambda>i. normalize_targets (num_classes self) (compute_means (acc s))
                        (compute_stds (acc s))
                        (map as_npfloat (stored_targets self gts sss i)))
              [0..<num_images self])"
proof -
  from combine_prefix [OF order_refl ent, of ev gts sss]
  obtain s where s:
    "foldM_err (combine_step self ev gts sss) [0..<num_images self] (initial_state self) = Inr s"
    "heap s = map (stored_targets self gts sss) [0..<num_images self]"
    "length (roi_gt_ss s) = num_image_entries self"
    "\<forall>i < num_images self. roi_gt_ss s ! i = Some (plain_entry self gts sss i) \<and>
        (add_flipped self \<longrightarrow>
           roi_gt_ss s ! (i + num_images self) = Some (flipped_entry self ev gts sss i))"
    "acc s = fold (\<lambda>i. acc_image self (raw_targets gts sss i)) [0..<num_images self]
               (acc (initial_state self))"
    by blast
  have loop: "combine_loop self ev gts sss = Inr s"
    using s(1) len by (simp add: combine_loop_def)
  let ?hp = "map (map as_npfloat) (heap s)"
  have slots: "\<forall>i < num_images self. \<exists>e. roi_gt_ss s ! i = Some e \<and> bb_targets e = i"
    using s(4) by (simp add: plain_entry_def)
  have le: "num_images self \<le> length (roi_gt_ss s)" using s(3) ent by simp
  have lh: "num_images self \<le> length ?hp" using s(2) by simp
  have "foldM_err (normalize_step (num_classes self) (compute_means (acc s))
            (compute_stds (acc s)) (roi_gt_ss s)) [0..<num_images self] ?hp =
        Inr (map (normalize_targets (num_classes self) (compute_means (acc s))
                    (compute_stds (acc s))) (take (num_images self) ?hp)
              @ drop (num_images self) ?hp)"
    by (rule normalize_prefix [OF slots le lh])
  also have "take (num_images self) ?hp = ?hp" using s(2) by simp
  also have "drop (num_images self) ?hp = []" using s(2) by simp
  finally have "combine_gt_ss_roi self ev gts sss =
       Inr (roi_gt_ss s,
            map (normalize_targets (num_classes self) (compute_means (acc s))
                    (compute_stds (acc s))) ?hp)"
    using loop by (simp add: combine_gt_ss_roi_def Let_def)
  then have "combine_gt_ss_roi self ev gts sss =
       Inr (roi_gt_ss s,
            map (\<lambda>i. normalize_targets (num_classes self) (compute_means (acc s))
                        (compute_stds (acc s))
                        (map as_npfloat (stored_targets self gts sss i)))
              [0..<num_images self])"
    using s(2) by (simp add: comp_def)
  with loop s(2-5) show ?thesis by blast
qed

text \<open>The database that \<^verbatim>\<open>combine_gt_ss_roi\<close> returns, entry by entry.\<close>

lemma view_db_entries:
  assumes len: "length gts = num_images self" "length sss = num_images self"
    and ent: "num_image_entries self =
           (if add_flipped self then num_images self * 2 else num_images self)"
  shows "\<exists>s r. combine_loop self ev gts sss = Inr s \<and>
     acc s = fold (\<lambda>i. acc_image self (raw_targets gts sss i)) [0..<num_images self]
               (acc (initial_state self)) \<and>
     combine_gt_ss_roi self ev gts sss = Inr r \<and>
     length (view_db r) = num_image_entries self \<and>
     (\<forall>j < num_image_entries self. \<exists>d. view_db r ! j = Some d \<and>
        flipped d = (num_images self \<le> j) \<and>
        bb_targets d =
          normalize_targets (num_classes self) (compute_means (acc s)) (compute_stds (acc s))
            (map as_npfloat (stored_targets self gts sss (j mod num_images self))))"
proof -
  define n where "n = num_images self"
  from combine_gt_ss_roi_result [OF len ent, of ev]
  obtain s where s: "combine_loop self ev gts sss = Inr s"
    "length (roi_gt_ss s) = num_image_entries self"
    "\<forall>i < n. roi_gt_ss s ! i = Some (plain_entry self gts sss i) \<and>
        (add_flipped self \<longrightarrow>
           roi_gt_ss s ! (i + n) = Some (flipped_entry self ev gts sss i))"
    "acc s = fold (\<lambda>i. acc_image self (raw_targets gts sss i)) [0..<n]
               (acc (initial_state self))"
    "combine_gt_ss_roi self ev gts sss =
       Inr (roi_gt_ss s,
            map (\<lambda>i. normalize_targets (num_classes self) (compute_means (acc s))
                        (compute_stds (acc s))
                        (map as_npfloat (stored_targets self gts sss i)))
              [0..<n])"
    unfolding n_def by blast
  let ?T = "\<lambda>i. normalize_targets (num_classes self) (compute_means (acc s))
                        (compute_stds (acc s))
                        (map as_npfloat (stored_targets self gts sss i))"
  let ?r = "(roi_gt_ss s, map ?T [0..<n])"
  have lv: "length (view_db ?r) = num_image_entries self"
    using s(2) by (simp add: view_db_def)
  have ex: "\<exists>d. view_db ?r ! j = Some d \<and> flipped d = (n \<le> j) \<and> bb_targets d = ?T (j mod n)"
    if j: "j < num_image_entries self" for j
  proof (cases "j < n")
    case True
    then have "roi_gt_ss s ! j = Some (plain_entry self gts sss j)" using s(3) by blast
    then have "view_db ?r ! j = Some (deref (map ?T [0..<n]) (plain_entry self gts sss j))"
      using j s(2) by (simp add: view_db_def)
    then show ?thesis using True by (simp add: deref_def plain_entry_def)
  next
    case False
    then have fl: "add_flipped self" and jn: "j - n < n" "j = (j - n) + n"
      using j ent by (auto simp: n_def split: if_splits)
    then have "roi_gt_ss s ! j = Some (flipped_entry self ev gts sss (j - n))"
      using s(3) by metis
    then have "view_db ?r ! j =
        Some (deref (map ?T [0..<n]) (flipped_entry self ev gts sss (j - n)))"
      using j s(2) by (simp add: view_db_def)
    moreover have "j mod n = j - n" using jn False by (simp add: mod_if)
    ultimately show ?thesis
      using False jn(1) by (simp add: deref_def flipped_entry_def plain_entry_def)
  qed
  show ?thesis
    apply (rule exI [of _ s], rule exI [of _ ?r])
    using s(1,4,5) lv ex by (simp add: n_def)
qed

text \<open>Accumulating rows that are zero for class \<open>c\<close> keeps the sums of class \<open>c\<close> at zero.\<close>

lemma vsum_zeros: "\<forall>v \<in> set vs. v = (0, 0, 0, 0) \<Longrightarrow> vsum vs = (0, 0, 0, 0)"
proof -
  have "\<forall>v \<in> set vs. v = (0, 0, 0, 0) \<Longrightarrow> foldl vadd a vs = a" for a
    by (induction vs arbitrary: a) (auto simp: vadd_def)
  then show "\<forall>v \<in> set vs. v = (0, 0, 0, 0) \<Longrightarrow> vsum vs = (0, 0, 0, 0)"
    by (simp add: vsum_def)
qed

lemma accumulate_cls_zero:
  assumes "zero_sums ncls c st" "c < ncls"
    and "\<forall>t \<in> set rows. fst t = c \<longrightarrow> snd t = (0, 0, 0, 0)"
  shows "zero_sums ncls c (accumulate_cls rows cls st)"
proof (cases "cls = c")
  case False
  then show ?thesis
    using assms(1) by (simp add: accumulate_cls_def zero_sums_def Let_def)
next
  case True
  define inds where "inds = where_idx (\<lambda>t. fst t = c) rows"
  have z: "\<forall>i \<in> set inds. snd (rows ! i) = (0, 0, 0, 0)"
    using assms(3) by (auto simp: inds_def where_idx_set)
  have "vsum (map (\<lambda>i. snd (rows ! i)) inds) = (0, 0, 0, 0)"
    by (rule vsum_zeros) (use z in auto)
  moreover have "vsum (map (\<lambda>i. vsquare (snd (rows ! i))) inds) = (0, 0, 0, 0)"
    by (rule vsum_zeros) (use z in \<open>auto simp: vsquare_def\<close>)
  ultimately show ?thesis
    using assms(1,2) True
    by (simp add: accumulate_cls_def zero_sums_def Let_def inds_def vadd_def)
qed

lemma accumulate_zero:
  assumes "zero_sums ncls c st" "c < ncls"
    and "\<forall>t \<in> set rows. fst t = c \<longrightarrow> snd t = (0, 0, 0, 0)"
  shows "zero_sums ncls c (accumulate n rows st)"
proof -
  have "zero_sums ncls c (fold (accumulate_cls rows) cs st)" for cs
    using assms(1)
  proof (induction cs arbitrary: st)
    case Nil
    then show ?case by simp
  next
    case (Cons a cs)
    show ?case using Cons.IH [OF accumulate_cls_zero [OF Cons.prems assms(2,3)]] by simp
  qed
  then show ?thesis by (simp add: accumulate_def)
qed

lemma negate_dx_zero:
  "\<forall>t \<in> set rows. fst t = c \<longrightarrow> snd t = (0, 0, 0, 0) \<Longrightarrow>
     \<forall>t \<in> set (map negate_dx rows). fst t = c \<longrightarrow> snd t = (0, 0, 0, 0)"
  by auto

lemma acc_image_zero:
  assumes "zero_sums ncls c st" "c < ncls"
    and "\<forall>t \<in> set rows. fst t = c \<longrightarrow> snd t = (0, 0, 0, 0)"
  shows "zero_sums ncls c (acc_image self rows st)"
  unfolding acc_image_def
  using accumulate_zero [OF accumulate_zero [OF assms] assms(2) negate_dx_zero [OF assms(3)]]
    accumulate_zero [OF assms]
  by simp

lemma acc_images_zero:
  assumes "zero_sums ncls c st" "c < ncls"
    and "\<forall>i \<in> set js. \<forall>t \<in> set (rows i). fst t = c \<longrightarrow> snd t = (0, 0, 0, 0)"
  shows "zero_sums ncls c (fold (\<lambda>i. acc_image self (rows i)) js st)"
  using assms(1,3)
proof (induction js arbitrary: st)
  case Nil
  then show ?case by simp
next
  case (Cons j js)
  have "zero_sums ncls c (acc_image self (rows j) st)"
    by (rule acc_image_zero [OF Cons.prems(1) assms(2)]) (use Cons.prems(2) in simp)
  from Cons.IH [OF this] Cons.prems(2) show ?case by simp
qed

lemma zero_sums_std:
  assumes "zero_sums ncls c st" "c < ncls"
  shows "compute_means st ! c = (0, 0, 0, 0)" "compute_stds st ! c = (Fin 0, Fin 0, Fin 0, Fin 0)"
    "length (compute_means st) = ncls" "length (compute_stds st) = ncls"
proof -
  show m: "compute_means st ! c = (0, 0, 0, 0)"
    using assms by (simp add: compute_means_def zero_sums_def)
  show lm: "length (compute_means st) = ncls"
    using assms by (simp add: compute_means_def zero_sums_def)
  show "compute_stds st ! c = (Fin 0, Fin 0, Fin 0, Fin 0)"
    using assms m lm by (simp add: compute_stds_def zero_sums_def np_sqrt_def)
  show "length (compute_stds st) = ncls"
    using assms lm by (simp add: compute_stds_def zero_sums_def)
qed

text \<open>
  When every row of class \<open>c\<close> has zero deltas, the deviation computed for \<open>c\<close> is zero
  and every stored row of class \<open>c\<close> becomes \<open>nan\<close>.
\<close>

lemma zero_class_gives_nan:
  assumes len: "length gts = num_images self" "length sss = num_images self"
    and ent: "num_image_entries self =
           (if add_flipped self then num_images self * 2 else num_images self)"
    and c: "1 \<le> c" "c < num_classes self"
    and zero: "\<forall>i < num_images self. \<forall>t \<in> set (raw_targets gts sss i).
                 fst t = c \<longrightarrow> snd t = (0, 0, 0, 0)"
  shows "\<exists>s r. combine_loop self ev gts sss = Inr s \<and>
     compute_stds (acc s) ! c = (Fin 0, Fin 0, Fin 0, Fin 0) \<and>
     combine_gt_ss_roi self ev gts sss = Inr r \<and>
     length (view_db r) = num_image_entries self \<and>
     (\<forall>j < num_image_entries self. \<exists>d. view_db r ! j = Some d \<and>
        map fst (bb_targets d) = map fst (raw_targets gts sss (j mod num_images self)) \<and>
        (\<forall>t \<in> set (bb_targets d). fst t = c \<longrightarrow> snd t = (NaN, NaN, NaN, NaN)))"
proof -
  define n where "n = num_images self"
  from view_db_entries [OF len ent, of ev]
  obtain s r where s: "combine_loop self ev gts sss = Inr s"
    "acc s = fold (\<lambda>i. acc_image self (raw_targets gts sss i)) [0..<n]
               (acc (initial_state self))"
    "combine_gt_ss_roi self ev gts sss = Inr r"
    "length (view_db r) = num_image_entries self"
    "\<forall>j < num_image_entries self. \<exists>d. view_db r ! j = Some d \<and>
        flipped d = (n \<le> j) \<and>
        bb_targets d =
          normalize_targets (num_classes self) (compute_means (acc s)) (compute_stds (acc s))
            (map as_npfloat (stored_targets self gts sss (j mod n)))"
    unfolding n_def by blast
  have z0: "zero_sums (num_classes self) c (acc (initial_state self))"
    using c(2) by (simp add: zero_sums_def initial_state_def)
  have "zero_sums (num_classes self) c (acc s)"
    unfolding s(2)
    by (rule acc_images_zero [OF z0 c(2)]) (use zero in \<open>simp add: n_def\<close>)
  from zero_sums_std [OF this c(2)]
  have ms: "compute_means (acc s) ! c = (0, 0, 0, 0)"
    "compute_stds (acc s) ! c = (Fin 0, Fin 0, Fin 0, Fin 0)" by simp_all
  have nan: "map fst (bb_targets d) = map fst (raw_targets gts sss (j mod n)) \<and>
             (\<forall>t \<in> set (bb_targets d). fst t = c \<longrightarrow> snd t = (NaN, NaN, NaN, NaN))"
    if j: "j < num_image_entries self"
      and d: "bb_targets d =
          normalize_targets (num_classes self) (compute_means (acc s)) (compute_stds (acc s))
            (map as_npfloat (stored_targets self gts sss (j mod n)))" for j d
  proof -
    have n0: "0 < n" using j ent by (auto simp: n_def split: if_splits)
    then have jm: "j mod n < num_images self" by (simp add: n_def)
    define raw where "raw = raw_targets gts sss (j mod n)"
    have zr: "\<forall>t \<in> set raw. fst t = c \<longrightarrow> snd t = (0, 0, 0, 0)"
      using zero jm by (simp add: raw_def)
    have zs: "\<forall>t \<in> set (stored_targets self gts sss (j mod n)).
                fst t = c \<longrightarrow> snd t = (0, 0, 0, 0)"
      using zr negate_dx_zero [OF zr] by (simp add: stored_targets_def raw_def)
    have cl: "map fst (stored_targets self gts sss (j mod n)) = map fst raw"
      by (auto simp: stored_targets_def raw_def)
    have "map fst (bb_targets d) = map fst (stored_targets self gts sss (j mod n))"
      unfolding d normalize_targets_map
      by (simp add: comp_def as_npfloat_def norm_row_def if_distrib cong: if_cong)
    then have one: "map fst (bb_targets d) = map fst raw" using cl by simp
    have two: "snd t = (NaN, NaN, NaN, NaN)" if t: "t \<in> set (bb_targets d)" "fst t = c" for t
    proof -
      from t(1) obtain u where u: "u \<in> set (stored_targets self gts sss (j mod n))"
        and tu: "t = (if 1 \<le> fst (as_npfloat u) \<and> fst (as_npfloat u) < num_classes self
                      then norm_row (compute_means (acc s)) (compute_stds (acc s)) (as_npfloat u)
                      else as_npfloat u)"
        unfolding d normalize_targets_map by auto
      have fu: "fst u = c" using tu t(2) by (auto simp: as_npfloat_def norm_row_def split: if_splits)
      with zs u have "snd u = (0, 0, 0, 0)" by blast
      then show ?thesis
        using tu fu c ms by (simp add: as_npfloat_def norm_row_def)
    qed
    show ?thesis using one two by (simp add: raw_def)
  qed
  show ?thesis
    apply (rule exI [of _ s], rule exI [of _ r])
    using s(1,3,4,5) ms(2) nan unfolding n_def by blast
qed

subsection \<open>From the loaders to the database\<close>

lemma groundtruth_list:
  assumes "load_pascal_roi_groundtruth self ev = Inr gts"
  shows "length gts = length (image_index self)"
    "\<forall>i < length (image_index self).
       \<exists>objs. load_pascal_annotation (image_index self ! i) objs = Inr (gts ! i)"
proof -
  let ?f = "\<lambda>img. case annotation_files ev img of
                     None \<Rightarrow> Inl IOError
                   | Some objs \<Rightarrow> load_pascal_annotation img objs"
  from assms have m: "mapM_err ?f (image_index self) = Inr gts"
    by (simp add: load_pascal_roi_groundtruth_def)
  from mapM_err_Inr_nth [OF m]
  have l: "length gts = length (image_index self)"
    and e: "\<forall>i < length (image_index self). ?f (image_index self ! i) = Inr (gts ! i)"
    by auto
  show "length gts = length (image_index self)" by (rule l)
  show "\<forall>i < length (image_index self).
       \<exists>objs. load_pascal_annotation (image_index self ! i) objs = Inr (gts ! i)"
  proof (intro allI impI)
    fix i assume "i < length (image_index self)"
    with e have "?f (image_index self ! i) = Inr (gts ! i)" by blast
    then show "\<exists>objs. load_pascal_annotation (image_index self ! i) objs = Inr (gts ! i)"
      by (auto split: option.splits)
  qed
qed

lemma selectivesearch_list:
  assumes "load_pascal_roi_selectivesearch self ev gts = Inr sss"
  shows "length sss = num_images self"
    "\<forall>i < num_images self.
       \<exists>raw. selectivesearch_image (overlap_thre self) (gts ! i) raw = Inr (sss ! i)"
proof -
  from assms obtain ss where ss: "selective_search_file ev = Some ss"
    by (auto simp: load_pascal_roi_selectivesearch_def split: option.splits)
  let ?f = "\<lambda>i. if i \<ge> length (images ss) \<or> i \<ge> length (image_index self)
                       \<or> i \<ge> length gts then Inl IndexError
                  else if image_index self ! i \<noteq> images ss ! i then Inl AssertionError
                  else selectivesearch_image (overlap_thre self) (gts ! i) (boxes ss ! i)"
  from assms ss have n: "length (boxes ss) = num_images self"
    and m: "mapM_err ?f [0..<num_images self] = Inr sss"
    by (auto simp: load_pascal_roi_selectivesearch_def Let_def split: if_splits)
  from mapM_err_Inr_nth [OF m]
  have l: "length sss = num_images self"
    and e: "\<forall>i < num_images self. ?f ([0..<num_images self] ! i) = Inr (sss ! i)"
    by auto
  show "length sss = num_images self" by (rule l)
  show "\<forall>i < num_images self.
       \<exists>raw. selectivesearch_image (overlap_thre self) (gts ! i) raw = Inr (sss ! i)"
  proof (intro allI impI)
    fix i assume i: "i < num_images self"
    then have "[0..<num_images self] ! i = i" by simp
    moreover from e i have "?f ([0..<num_images self] ! i) = Inr (sss ! i)" by blast
    ultimately have "?f i = Inr (sss ! i)" by (simp only:)
    then have "selectivesearch_image (overlap_thre self) (gts ! i) (boxes ss ! i) = Inr (sss ! i)"
      by (auto split: if_splits)
    then show "\<exists>raw. selectivesearch_image (overlap_thre self) (gts ! i) raw = Inr (sss ! i)"
      by blast
  qed
qed

lemma selectivesearch_needs_box:
  assumes "selectivesearch_image thre gt raw = Inr ss"
  shows "gt_bb gt \<noteq> []"
proof
  assume e: "gt_bb gt = []"
  from calculate_bb_overlap_range [of "map ss_reorder raw" "map as_float (gt_bb gt)"]
  obtain M where "calculate_bb_overlap (map ss_reorder raw) (map as_float (gt_bb gt)) = Inr M"
    by blast
  then have "selectivesearch_image thre gt raw = Inl ValueError"
    using e by (simp add: selectivesearch_image_def Let_def)
  with assms show False by simp
qed

lemma ss_target_classes:
  assumes "load_pascal_annotation img objs = Inr gt"
    and "selectivesearch_image thre gt raw = Inr ss"
  shows "\<forall>t \<in> set (ss_bb_targets ss). fst t = 0 \<or> fst t \<in> set (gt_classes gt)"
proof -
  have wf: "gt_bb gt \<noteq> []" "length (gt_classes gt) = length (gt_bb gt)"
    "\<forall>c \<in> set (gt_classes gt). c < PASCAL_VOC_NUM_CLASSES"
    using selectivesearch_needs_box [OF assms(2)] load_pascal_annotation_shape [OF assms(1)]
    by auto
  from selectivesearch_image_rows [OF wf, of thre raw] assms(2)
  have l: "length (ss_bb_targets ss) = length raw"
    and c: "\<forall>r < length raw. fst (ss_bb_targets ss ! r) = 0 \<or>
                fst (ss_bb_targets ss ! r) \<in> set (gt_classes gt)"
    by auto
  show ?thesis
  proof
    fix t assume "t \<in> set (ss_bb_targets ss)"
    then obtain r where "r < length (ss_bb_targets ss)" "ss_bb_targets ss ! r = t"
      by (auto simp: in_set_conv_nth)
    with l c show "fst t = 0 \<or> fst t \<in> set (gt_classes gt)" by auto
  qed
qed

text \<open>
  In a database built from the loaders, a class that occurs among the rows of an image
  has a ground-truth row with zero deltas in that image.
\<close>

lemma class_has_zero_row:
  assumes "load_pascal_annotation img objs = Inr gt"
    and "selectivesearch_image thre gt raw = Inr ss"
    and "t \<in> set (gt_bb_targets gt @ ss_bb_targets ss)" "1 \<le> fst t"
  shows "(fst t, (0, 0, 0, 0)) \<in> set (gt_bb_targets gt)" "fst t < PASCAL_VOC_NUM_CLASSES"
proof -
  note sh = load_pascal_annotation_shape [OF assms(1)]
  have "fst t \<in> set (gt_classes gt)"
  proof (cases "t \<in> set (gt_bb_targets gt)")
    case True
    then show ?thesis using sh(4) by auto
  next
    case False
    then have "t \<in> set (ss_bb_targets ss)" using assms(3) by simp
    with ss_target_classes [OF assms(1,2)] assms(4) show ?thesis by auto
  qed
  then show "(fst t, (0, 0, 0, 0)) \<in> set (gt_bb_targets gt)" using sh(4) by auto
  show "fst t < PASCAL_VOC_NUM_CLASSES" using \<open>fst t \<in> set (gt_classes gt)\<close> sh(3) by blast
qed

subsection \<open>The accumulators of one class in closed form\<close>

lemma where_idx_map: "map (\<lambda>i. f (xs ! i)) (where_idx P xs) = map f (filter P xs)"
proof -
  have "map (\<lambda>i. xs ! i) (where_idx P xs) = filter P (map (\<lambda>i. xs ! i) [0..<length xs])"
    by (simp add: where_idx_def filter_map comp_def)
  then have "map (\<lambda>i. xs ! i) (where_idx P xs) = filter P xs" by (simp add: map_nth)
  then have "map f (map (\<lambda>i. xs ! i) (where_idx P xs)) = map f (filter P xs)" by simp
  then show ?thesis by (simp add: comp_def)
qed

lemma where_idx_length: "length (where_idx P xs) = length (filter P xs)"
  using arg_cong [OF where_idx_map [of "\<lambda>x. x" xs P], of length] by simp

lemma vadd_zero: "vadd x (0, 0, 0, 0) = x"
  by (cases x rule: prod_cases4) (simp add: vadd_def)

lemma accumulate_cls_class:
  assumes "wf_stats n st" "c < n"
  shows "wf_stats n (accumulate_cls rows cls st)"
    "class_stats c (accumulate_cls rows cls st) =
       (if cls = c then add_rows c rows (class_stats c st) else class_stats c st)"
proof -
  define inds where "inds = where_idx (\<lambda>t. fst t = cls) rows"
  have m: "map (\<lambda>i. snd (rows ! i)) inds = map snd (filter (\<lambda>t. fst t = cls) rows)"
    "map (\<lambda>i. vsquare (snd (rows ! i))) inds =
       map (\<lambda>t. vsquare (snd t)) (filter (\<lambda>t. fst t = cls) rows)"
    "length inds = length (filter (\<lambda>t. fst t = cls) rows)"
    unfolding inds_def by (rule where_idx_map, rule where_idx_map, rule where_idx_length)
  show "wf_stats n (accumulate_cls rows cls st)"
    using assms(1) by (simp add: accumulate_cls_def wf_stats_def Let_def)
  show "class_stats c (accumulate_cls rows cls st) =
       (if cls = c then add_rows c rows (class_stats c st) else class_stats c st)"
  proof (cases "length inds > 0")
    case True
    then have ne: "inds \<noteq> []" by auto
    have "accumulate_cls rows cls st =
        st \<lparr> class_counts :=
               (class_counts st)[cls := class_counts st ! cls + real (length inds)],
             sums_tab :=
               (sums_tab st)[cls := vadd (sums_tab st ! cls)
                                  (vsum (map (\<lambda>i. snd (rows ! i)) inds))],
             squared_sums :=
               (squared_sums st)[cls := vadd (squared_sums st ! cls)
                                  (vsum (map (\<lambda>i. vsquare (snd (rows ! i))) inds))] \<rparr>"
      using True by (simp add: accumulate_cls_def Let_def inds_def)
    then show ?thesis
      using assms by (simp add: m class_stats_def add_rows_def wf_stats_def Let_def)
  next
    case False
    then have e: "filter (\<lambda>t. fst t = cls) rows = []" using m(3) by simp
    have same: "accumulate_cls rows cls st = st"
      using False by (simp add: accumulate_cls_def Let_def inds_def)
    show ?thesis
    proof (cases "cls = c")
      case True
      with e have "filter (\<lambda>t. fst t = c) rows = []" by simp
      then show ?thesis
        using True same by (simp add: class_stats_def add_rows_def vadd_zero vsum_def Let_def)
    next
      case False
      then show ?thesis using same by simp
    qed
  qed
qed

lemma accumulate_classes:
  assumes "wf_stats n st" "c < n" "distinct cs"
  shows "wf_stats n (fold (accumulate_cls rows) cs st) \<and>
         class_stats c (fold (accumulate_cls rows) cs st) =
           (if c \<in> set cs then add_rows c rows (class_stats c st) else class_stats c st)"
  using assms(1,3)
proof (induction cs arbitrary: st)
  case Nil
  then show ?case by simp
next
  case (Cons a cs)
  note st = accumulate_cls_class [OF Cons.prems(1) assms(2), of rows a]
  from Cons.prems(2) have d: "distinct cs" "a \<notin> set cs" by auto
  from Cons.IH [OF st(1) d(1)] st(2) d(2) show ?case by auto
qed

lemma accumulate_class:
  assumes "wf_stats n st" "1 \<le> c" "c < n"
  shows "wf_stats n (accumulate n rows st)"
    "class_stats c (accumulate n rows st) = add_rows c rows (class_stats c st)"
  using accumulate_classes [OF assms(1,3), of "[1..<n]" rows] assms(2,3)
  by (simp_all add: accumulate_def)

lemma compute_at_class:
  assumes "wf_stats n st" "c < n"
  shows "compute_means st ! c = map_quad (\<lambda>x. x / class_counts st ! c) (sums_tab st ! c)"
    "compute_stds st ! c =
       zip_quad (\<lambda>x y. np_sqrt (x / class_counts st ! c - y ^ 2)) (squared_sums st ! c)
         (compute_means st ! c)"
proof -
  show "compute_means st ! c = map_quad (\<lambda>x. x / class_counts st ! c) (sums_tab st ! c)"
    using assms by (simp add: compute_means_def wf_stats_def)
  have "length (compute_means st) = n" using assms by (simp add: compute_means_def wf_stats_def)
  then show "compute_stds st ! c =
       zip_quad (\<lambda>x y. np_sqrt (x / class_counts st ! c - y ^ 2)) (squared_sums st ! c)
         (compute_means st ! c)"
    using assms by (simp add: compute_stds_def wf_stats_def)
qed

subsection \<open>Degenerate classes\<close>

text \<open>
  Claim C9.  Take a dataset object and the ground truth and proposals its loaders return,
  and a non-background class \<open>c\<close> that occurs among the regression targets.  If all
  accumulated targets of class \<open>c\<close> are identical (they are then the zero deltas of the
  ground-truth rows, as for a class matched by ground-truth candidates only), the
  standard deviation computed for \<open>c\<close> is 0 in all four components, the unguarded
  division stores \<open>nan\<close> in every target of class \<open>c\<close> of every entry of the database, and
  there is such a target.  The database is the one the constructor stores when there is
  no cache file.
\<close>

theorem identical_targets_give_nan:
  assumes attrs: "init_attrs a ev = Inr self"
    and gts: "load_pascal_roi_groundtruth self ev = Inr gts"
    and sss: "load_pascal_roi_selectivesearch self ev gts = Inr sss"
    and c: "1 \<le> c"
    and present: "\<exists>i < num_images self. \<exists>t \<in> set (raw_targets gts sss i). fst t = c"
    and identical: "\<forall>i < num_images self. \<forall>j < num_images self.
        \<forall>t \<in> set (raw_targets gts sss i). \<forall>u \<in> set (raw_targets gts sss j).
          fst t = c \<and> fst u = c \<longrightarrow> snd t = snd u"
  shows "\<exists>s r. combine_loop self ev gts sss = Inr s \<and>
     compute_stds (acc s) ! c = (Fin 0, Fin 0, Fin 0, Fin 0) \<and>
     combine_gt_ss_roi self ev gts sss = Inr r \<and>
     (cache_file ev = None \<longrightarrow>
        PASCALVOC_init a ev = Inr (pascalvoc_attrs.extend self (pascalvoc.fields (view_db r)))) \<and>
     length (view_db r) = num_image_entries self \<and>
     (\<forall>j < num_image_entries self. \<exists>d. view_db r ! j = Some d \<and>
        (\<forall>t \<in> set (bb_targets d). fst t = c \<longrightarrow> snd t = (NaN, NaN, NaN, NaN))) \<and>
     (\<exists>j < num_image_entries self. \<exists>d t. view_db r ! j = Some d \<and>
        t \<in> set (bb_targets d) \<and> fst t = c \<and> snd t = (NaN, NaN, NaN, NaN))"
proof -
  define n where "n = num_images self"
  note f = init_attrs_facts [OF attrs]
  have ni: "n = length (image_index self)" using f(6) by (simp add: n_def)
  have lg: "length gts = n" using groundtruth_list(1) [OF gts] ni by simp
  have ls: "length sss = n" using selectivesearch_list(1) [OF sss] by (simp add: n_def)
  have zr: "(c, (0, 0, 0, 0)) \<in> set (raw_targets gts sss i) \<and> c < PASCAL_VOC_NUM_CLASSES"
    if i: "i < n" and t: "t \<in> set (raw_targets gts sss i)" "fst t = c" for i t
  proof -
    from groundtruth_list(2) [OF gts] i ni obtain objs
      where a: "load_pascal_annotation (image_index self ! i) objs = Inr (gts ! i)" by auto
    from selectivesearch_list(2) [OF sss] i obtain raw
      where b: "selectivesearch_image (overlap_thre self) (gts ! i) raw = Inr (sss ! i)"
      by (auto simp: n_def)
    have m: "t \<in> set (gt_bb_targets (gts ! i) @ ss_bb_targets (sss ! i))"
      using t(1) by (simp add: raw_targets_def)
    from class_has_zero_row [OF a b m] c t(2)
    show ?thesis by (auto simp: raw_targets_def)
  qed
  from present obtain i0 t0 where p: "i0 < n" "t0 \<in> set (raw_targets gts sss i0)" "fst t0 = c"
    by (auto simp: n_def)
  have cn: "c < num_classes self" using zr [OF p] f(5) by simp
  have zero: "\<forall>i < num_images self. \<forall>t \<in> set (raw_targets gts sss i).
                 fst t = c \<longrightarrow> snd t = (0, 0, 0, 0)"
  proof (intro allI impI ballI)
    fix i t assume i: "i < num_images self" and t: "t \<in> set (raw_targets gts sss i)"
      and ft: "fst t = c"
    from zr [of i t] i t ft have z: "(c, (0, 0, 0, 0)) \<in> set (raw_targets gts sss i)"
      by (simp add: n_def)
    from identical i t z ft have "snd t = snd (c, (0 :: real, 0 :: real, 0 :: real, 0 :: real))"
      by (metis fst_conv)
    then show "snd t = (0, 0, 0, 0)" by simp
  qed
  have len: "length gts = num_images self" "length sss = num_images self"
    using lg ls by (simp_all add: n_def)
  from zero_class_gives_nan [OF len f(7) c cn zero, of ev]
  obtain s r where r: "combine_loop self ev gts sss = Inr s"
    "compute_stds (acc s) ! c = (Fin 0, Fin 0, Fin 0, Fin 0)"
    "combine_gt_ss_roi self ev gts sss = Inr r"
    "length (view_db r) = num_image_entries self"
    "\<forall>j < num_image_entries self. \<exists>d. view_db r ! j = Some d \<and>
        map fst (bb_targets d) = map fst (raw_targets gts sss (j mod num_images self)) \<and>
        (\<forall>t \<in> set (bb_targets d). fst t = c \<longrightarrow> snd t = (NaN, NaN, NaN, NaN))"
    by blast
  have init: "PASCALVOC_init a ev = Inr (pascalvoc_attrs.extend self (pascalvoc.fields (view_db r)))"
    if "cache_file ev = None"
    using that attrs gts sss r(3) by (simp add: PASCALVOC_init_def)
  have i0e: "i0 < num_image_entries self" using p(1) f(7) by (simp add: n_def)
  with r(5) obtain d where d: "view_db r ! i0 = Some d"
    "map fst (bb_targets d) = map fst (raw_targets gts sss (i0 mod num_images self))"
    "\<forall>t \<in> set (bb_targets d). fst t = c \<longrightarrow> snd t = (NaN, NaN, NaN, NaN)"
    by blast
  have "c \<in> set (map fst (raw_targets gts sss i0))" using p(2,3) by force
  then have "c \<in> set (map fst (bb_targets d))" using d(2) p(1) by (simp add: n_def)
  then obtain t where t: "t \<in> set (bb_targets d)" "fst t = c" by auto
  with d(3) have tn: "snd t = (NaN, NaN, NaN, NaN)" by blast
  have ex: "\<exists>j < num_image_entries self. \<exists>d t. view_db r ! j = Some d \<and>
        t \<in> set (bb_targets d) \<and> fst t = c \<and> snd t = (NaN, NaN, NaN, NaN)"
    using i0e d(1) t tn by blast
  have all: "\<forall>j < num_image_entries self. \<exists>d. view_db r ! j = Some d \<and>
        (\<forall>t \<in> set (bb_targets d). fst t = c \<longrightarrow> snd t = (NaN, NaN, NaN, NaN))"
    using r(5) by blast
  show ?thesis
    apply (rule exI [of _ s], rule exI [of _ r])
    using r(1-4) init all ex by blast
qed

lemma example_attrs_init: "init_attrs example_args example_env = Inr example_attrs"
  by (simp add: init_attrs_def example_args_def example_env_def value_or_def load_voc_def
      dataset_meta_keys_def Let_def FRCN_FG_FRAC_def FRCN_IOU_THRE_def
      PASCAL_VOC_NUM_CLASSES_def FRCN_IMG_PER_BATCH_def FRCN_ROI_PER_IMAGE_def
      example_attrs_def)

lemma gt_only_attrs_init: "init_attrs example_args gt_only_env = Inr example_attrs"
  by (simp add: init_attrs_def example_args_def gt_only_env_def example_env_def value_or_def
      load_voc_def dataset_meta_keys_def Let_def FRCN_FG_FRAC_def FRCN_IOU_THRE_def
      PASCAL_VOC_NUM_CLASSES_def FRCN_IMG_PER_BATCH_def FRCN_ROI_PER_IMAGE_def
      example_attrs_def)

lemma bird_index: "class_to_index ''bird'' = Some 3"
  by (simp add: class_to_index_def PASCAL_VOC_CLASSES_def PASCAL_VOC_NUM_CLASSES_def upt_rec)

lemma example_annotation:
  "load_pascal_annotation ''000001''
     [\<lparr> obj_xmin = 11, obj_ymin = 11, obj_xmax = 51, obj_ymax = 51, obj_name = ''bird'' \<rparr>]
     = Inr example_gt"
  by (simp add: load_pascal_annotation_def load_object_def bird_index
      PASCAL_VOC_NUM_CLASSES_def Let_def example_gt_def)

lemma example_groundtruth:
  "load_pascal_roi_groundtruth example_attrs example_env = Inr [example_gt]"
  "load_pascal_roi_groundtruth example_attrs gt_only_env = Inr [example_gt]"
  by (simp_all add: load_pascal_roi_groundtruth_def example_attrs_def example_env_def
      gt_only_env_def example_annotation)

lemma gt_only_overlap:
  "calculate_bb_overlap [(30, 30, 70, 70)] [(10, 10, 50, 50)] = Inr [[441 / 2921]]"
  by (simp add: calculate_bb_overlap_def overlap_cell_def inter_iw_def inter_ih_def
      union_ua_def gt_box_area_def py_float_div_def)

lemma gt_only_image:
  "selectivesearch_image (1 / 2) example_gt [(31, 31, 71, 71)] = Inr gt_only_ss"
proof -
  have am: "np_argmax [441 / 2921] = 0" by (simp add: np_argmax_def)
  show ?thesis
    by (simp add: selectivesearch_image_def example_gt_def as_float_def gt_only_overlap am
        Let_def where_idx_def np_argmax_single_entry np_max_single_entry
        PASCAL_VOC_NUM_CLASSES_def compute_bb_targets_def zero_row_def gt_only_ss_def)
qed

lemma gt_only_selectivesearch:
  "load_pascal_roi_selectivesearch example_attrs gt_only_env [example_gt] = Inr [gt_only_ss]"
  by (simp add: load_pascal_roi_selectivesearch_def example_attrs_def example_env_def
      gt_only_env_def Let_def gt_only_image)

lemma gt_only_raw:
  "raw_targets [example_gt] [gt_only_ss] 0 = [(3, (0, 0, 0, 0)), (0, (0, 0, 0, 0))]"
  by (simp add: raw_targets_def example_gt_def gt_only_ss_def)

theorem identical_targets_give_nan_witness:
  "init_attrs example_args gt_only_env = Inr example_attrs \<and>
   load_pascal_roi_groundtruth example_attrs gt_only_env = Inr [example_gt] \<and>
   load_pascal_roi_selectivesearch example_attrs gt_only_env [example_gt] = Inr [gt_only_ss] \<and>
   raw_targets [example_gt] [gt_only_ss] 0 = [(3, (0, 0, 0, 0)), (0, (0, 0, 0, 0))] \<and>
   (\<exists>r d. PASCALVOC_init example_args gt_only_env =
             Inr (pascalvoc_attrs.extend example_attrs (pascalvoc.fields (view_db r))) \<and>
          view_db r ! 0 = Some d \<and>
          (\<exists>t \<in> set (bb_targets d). fst t = 3 \<and> snd t = (NaN, NaN, NaN, NaN)))"
proof -
  have n: "num_images example_attrs = 1" "num_image_entries example_attrs = 1"
    by (simp_all add: example_attrs_def)
  have present: "\<exists>i < num_images example_attrs.
      \<exists>t \<in> set (raw_targets [example_gt] [gt_only_ss] i). fst t = 3"
    unfolding n by (rule exI [of _ 0]) (simp add: gt_only_raw)
  have identical: "\<forall>i < num_images example_attrs. \<forall>j < num_images example_attrs.
        \<forall>t \<in> set (raw_targets [example_gt] [gt_only_ss] i).
        \<forall>u \<in> set (raw_targets [example_gt] [gt_only_ss] j).
          fst t = 3 \<and> fst u = 3 \<longrightarrow> snd t = snd u"
    unfolding n by (auto simp: gt_only_raw)
  have c: "1 \<le> (3 :: nat)" by simp
  have nc: "cache_file gt_only_env = None" by (simp add: gt_only_env_def example_env_def)
  from identical_targets_give_nan [OF gt_only_attrs_init example_groundtruth(2)
      gt_only_selectivesearch c present identical]
  obtain s r where all:
    "combine_loop example_attrs gt_only_env [example_gt] [gt_only_ss] = Inr s \<and>
     compute_stds (acc s) ! 3 = (Fin 0, Fin 0, Fin 0, Fin 0) \<and>
     combine_gt_ss_roi example_attrs gt_only_env [example_gt] [gt_only_ss] = Inr r \<and>
     (cache_file gt_only_env = None \<longrightarrow>
        PASCALVOC_init example_args gt_only_env =
          Inr (pascalvoc_attrs.extend example_attrs (pascalvoc.fields (view_db r)))) \<and>
     length (view_db r) = num_image_entries example_attrs \<and>
     (\<forall>j < num_image_entries example_attrs. \<exists>d. view_db r ! j = Some d \<and>
        (\<forall>t \<in> set (bb_targets d). fst t = 3 \<longrightarrow> snd t = (NaN, NaN, NaN, NaN))) \<and>
     (\<exists>j < num_image_entries example_attrs. \<exists>d t. view_db r ! j = Some d \<and>
        t \<in> set (bb_targets d) \<and> fst t = 3 \<and> snd t = (NaN, NaN, NaN, NaN))"
    by (elim exE) (rule that)
  then have r:
    "cache_file gt_only_env = None \<longrightarrow>
        PASCALVOC_init example_args gt_only_env =
          Inr (pascalvoc_attrs.extend example_attrs (pascalvoc.fields (view_db r)))"
    "\<exists>j < num_image_entries example_attrs. \<exists>d t. view_db r ! j = Some d \<and>
        t \<in> set (bb_targets d) \<and> fst t = 3 \<and> snd t = (NaN, NaN, NaN, NaN)"
    by simp_all
  from r(2) obtain d t where "view_db r ! 0 = Some d"
    "t \<in> set (bb_targets d)" "fst t = 3" "snd t = (NaN, NaN, NaN, NaN)"
    unfolding n by auto
  with r(1) nc gt_only_attrs_init example_groundtruth(2) gt_only_selectivesearch gt_only_raw
  show ?thesis by blast
qed

end
